theory Spec2Isabelle
  imports Complex_Main
begin

section \<open>JavaScript strings\<close>

text \<open>
  A JavaScript string is modelled as a \<^typ>\<open>string\<close>: the list of its code units, for
  the strings whose code units are all below 256. The helpers below are the built-in
  string methods the services call, on that range.
\<close>

definition isWhiteSpace :: "char \<Rightarrow> bool" where
  "isWhiteSpace c =
     (c \<in> set [CHR 0x09, CHR 0x0A, CHR 0x0B, CHR 0x0C, CHR 0x0D, CHR 0x20, CHR 0xA0])"

definition trim :: "string \<Rightarrow> string" where
  "trim s = rev (dropWhile isWhiteSpace (rev (dropWhile isWhiteSpace s)))"

definition toLowerCase_char :: "char \<Rightarrow> char" where
  "toLowerCase_char c =
     (let n = of_char c :: nat
      in if (65 \<le> n \<and> n \<le> 90) \<or> (192 \<le> n \<and> n \<le> 214) \<or> (216 \<le> n \<and> n \<le> 222)
         then char_of (n + 32) else c)"

definition toLowerCase :: "string \<Rightarrow> string" where
  "toLowerCase s = map toLowerCase_char s"

text \<open>
  Upper case of one code unit. The three code units below 256 whose upper case is not
  one code unit below 256 (181, 223, 255) are left as they are; the callers only compare
  the result with the upper case of an ASCII letter, or apply it to an ASCII letter.
\<close>

definition toUpperCase_char :: "char \<Rightarrow> char" where
  "toUpperCase_char c =
     (let n = of_char c :: nat
      in if (97 \<le> n \<and> n \<le> 122) \<or> (224 \<le> n \<and> n \<le> 246) \<or> (248 \<le> n \<and> n \<le> 254)
         then char_of (n - 32) else c)"

definition toUpperCase :: "string \<Rightarrow> string" where
  "toUpperCase s = map toUpperCase_char s"

text \<open>\<^verbatim>\<open>s.includes(k)\<close>: \<open>k\<close> occurs in \<open>s\<close> as a contiguous substring.\<close>

fun includes_str :: "string \<Rightarrow> string \<Rightarrow> bool" where
  "includes_str [] k = (k = [])"
| "includes_str (c # cs) k = (take (length k) (c # cs) = k \<or> includes_str cs k)"

text \<open>\<^verbatim>\<open>s.replace(a, b)\<close> with a one-character string pattern: only the first
  occurrence is replaced.\<close>

fun replace_first :: "char \<Rightarrow> char \<Rightarrow> string \<Rightarrow> string" where
  "replace_first a b [] = []"
| "replace_first a b (c # cs) = (if c = a then b # cs else c # replace_first a b cs)"

definition isDigit :: "char \<Rightarrow> bool" where
  "isDigit c = (c \<in> set ''0123456789'')"

definition isLineTerminator :: "char \<Rightarrow> bool" where
  "isLineTerminator c = (c = CHR 0x0A \<or> c = CHR 0x0D)"

definition digit_val :: "char \<Rightarrow> nat" where
  "digit_val c = of_char c - 48"

definition digits_val :: "string \<Rightarrow> nat" where
  "digits_val ds = foldl (\<lambda>n c. 10 * n + digit_val c) 0 ds"

text \<open>
  \<^verbatim>\<open>parseFloat\<close> on the numerals the amount pattern yields: decimal digits, then
  optionally a point and more digits (no sign, no exponent). A JavaScript number is
  modelled by the rational its decimal notation denotes; the rounding to a double is
  not modelled. \<open>None\<close> stands for \<^verbatim>\<open>NaN\<close>.
\<close>

definition parseFloat :: "string \<Rightarrow> rat option" where
  "parseFloat s =
     (let ip = takeWhile isDigit s;
          r = dropWhile isDigit s;
          fp = (case r of [] \<Rightarrow> [] | c # r' \<Rightarrow> if c = CHR ''.'' then takeWhile isDigit r' else [])
      in if ip = [] \<and> fp = [] then None
         else Some (of_nat (digits_val ip) + of_nat (digits_val fp) / 10 ^ length fp))"

section \<open>Regular expressions\<close>

text \<open>
  The regular expressions of the services, with the matching discipline of the
  language: a backtracking matcher that tries the alternatives in priority order
  (left alternative first, a starred group as often as possible first). A matcher state
  is the rest of the input and the text captured by group 1; \<open>rx_match r st\<close> lists
  the states after each way of matching \<open>r\<close> at the start of the input, most preferred
  first.

  \<open>Chr c\<close> is a literal, \<open>OneOf cs\<close> a class of code units, \<open>Dot\<close> is
  \<^verbatim>\<open>.\<close> (any code unit but a line terminator), \<open>AnyChar\<close> is \<^verbatim>\<open>[\s\S]\<close>,
  \<open>Digit\<close> is \<^verbatim>\<open>\d\<close>, \<open>Star r\<close> is the greedy \<^verbatim>\<open>r*\<close> and \<open>Group r\<close> the
  capturing group.
\<close>

datatype rx = Chr char | OneOf "char list" | Dot | AnyChar | Digit | Eps
  | Seq rx rx | Alt rx rx | Star rx | Group rx

definition Opt :: "rx \<Rightarrow> rx" where
  "Opt r = Alt r Eps"

definition Plus :: "rx \<Rightarrow> rx" where
  "Plus r = Seq r (Star r)"

text \<open>
  A literal text under the flag \<^verbatim>\<open>i\<close>: each code unit stands for itself and its
  other case.
\<close>

definition ignoreCase :: "char \<Rightarrow> rx" where
  "ignoreCase c = OneOf [c, toLowerCase_char c, toUpperCase_char c]"

fun lit :: "string \<Rightarrow> rx" where
  "lit [] = Eps"
| "lit [c] = ignoreCase c"
| "lit (c # cs) = Seq (ignoreCase c) (lit cs)"

fun rx_atom :: "(char \<Rightarrow> bool) \<Rightarrow> string \<times> string option \<Rightarrow> (string \<times> string option) list" where
  "rx_atom p ([], g) = []"
| "rx_atom p (x # xs, g) = (if p x then [(xs, g)] else [])"

text \<open>An iteration of a star that consumes nothing is not taken (the filter).\<close>

fun rx_match :: "rx \<Rightarrow> string \<times> string option \<Rightarrow> (string \<times> string option) list" where
  "rx_match (Chr c) st = rx_atom (\<lambda>x. x = c) st"
| "rx_match (OneOf cs) st = rx_atom (\<lambda>x. x \<in> set cs) st"
| "rx_match Dot st = rx_atom (\<lambda>x. \<not> isLineTerminator x) st"
| "rx_match AnyChar st = rx_atom (\<lambda>x. True) st"
| "rx_match Digit st = rx_atom isDigit st"
| "rx_match Eps st = [st]"
| "rx_match (Seq r1 r2) st = concat (map (rx_match r2) (rx_match r1 st))"
| "rx_match (Alt r1 r2) st = rx_match r1 st @ rx_match r2 st"
| "rx_match (Star r) st =
     concat (map (rx_match (Star r))
                 (filter (\<lambda>st'. length (fst st') < length (fst st)) (rx_match r st))) @ [st]"
| "rx_match (Group r) st =
     map (\<lambda>st'. (fst st', Some (take (length (fst st) - length (fst st')) (fst st))))
         (rx_match r st)"

text \<open>
  \<^verbatim>\<open>s.match(r)\<close> and \<^verbatim>\<open>r.exec(s)\<close> for a pattern without the flag \<^verbatim>\<open>g\<close>: the
  leftmost start position where the pattern matches, and there the most preferred match.
  The result is the matched text (element 0) and group 1; \<open>None\<close> is \<^verbatim>\<open>null\<close>.
\<close>

fun rx_exec :: "rx \<Rightarrow> string \<Rightarrow> (string \<times> string option) option" where
  "rx_exec r s =
     (case rx_match r (s, None) of
        st' # _ \<Rightarrow> Some (take (length s - length (fst st')) s, snd st')
      | [] \<Rightarrow> (case s of [] \<Rightarrow> None | _ # s' \<Rightarrow> rx_exec r s'))"

declare rx_match.simps [simp del]

declare rx_exec.simps [simp del]

definition rx_test :: "rx \<Rightarrow> string \<Rightarrow> bool" where
  "rx_test r s = (rx_exec r s \<noteq> None)"

section \<open>JSON values, exceptions\<close>

text \<open>
  The values \<^verbatim>\<open>JSON.parse\<close> returns. An object is the list of its members in key
  order; its keys are distinct. Reading a property that is absent gives
  \<^verbatim>\<open>undefined\<close>, which is \<open>None\<close>.
\<close>

datatype json = JNull | JBool bool | JNum rat | JStr string | JArr "json list"
  | JObj "(string \<times> json) list"

definition get :: "json \<Rightarrow> string \<Rightarrow> json option" where
  "get v k = (case v of JObj kvs \<Rightarrow> map_of kvs k | _ \<Rightarrow> None)"

fun truthy :: "json option \<Rightarrow> bool" where
  "truthy None = False"
| "truthy (Some JNull) = False"
| "truthy (Some (JBool b)) = b"
| "truthy (Some (JNum n)) = (n \<noteq> 0)"
| "truthy (Some (JStr s)) = (s \<noteq> [])"
| "truthy (Some (JArr xs)) = True"
| "truthy (Some (JObj kvs)) = True"

fun isString :: "json option \<Rightarrow> bool" where
  "isString (Some (JStr s)) = True"
| "isString _ = False"

fun isNumber :: "json option \<Rightarrow> bool" where
  "isNumber (Some (JNum n)) = True"
| "isNumber _ = False"

fun str_of :: "json option \<Rightarrow> string" where
  "str_of (Some (JStr s)) = s"
| "str_of _ = []"

fun num_of :: "json option \<Rightarrow> rat" where
  "num_of (Some (JNum n)) = n"
| "num_of _ = 0"

fun arr_of :: "json option \<Rightarrow> json list" where
  "arr_of (Some (JArr xs)) = xs"
| "arr_of _ = []"

fun bool_of :: "json option \<Rightarrow> bool" where
  "bool_of (Some (JBool b)) = b"
| "bool_of _ = False"

text \<open>
  A thrown value: an \<^verbatim>\<open>Error\<close> with its message, the \<^verbatim>\<open>TypeError\<close> of reading
  the named property of \<^verbatim>\<open>null\<close>, or a value that is no \<^verbatim>\<open>Error\<close>. A function
  that can throw returns \<open>exn + 'a\<close>.
\<close>

datatype exn = Error string | NullRead string | NonError

text \<open>
  What the runtime supplies: \<^verbatim>\<open>JSON.parse\<close> on a string, and the message it gives the
  \<^verbatim>\<open>TypeError\<close> of reading a property of \<^verbatim>\<open>null\<close>.
\<close>

record js_engine =
  JSON_parse :: "string \<Rightarrow> exn + json"
  TypeError_message :: "string \<Rightarrow> string"

text \<open>\<^verbatim>\<open>error instanceof Error ? error.message : 'Unknown error'\<close>\<close>

definition error_message :: "js_engine \<Rightarrow> exn \<Rightarrow> string" where
  "error_message E e =
     (case e of Error m \<Rightarrow> m | NullRead p \<Rightarrow> TypeError_message E p | NonError \<Rightarrow> ''Unknown error'')"

text \<open>\<^verbatim>\<open>xs.every(f)\<close> where \<open>f\<close> can throw: stops at the first element that throws or fails.\<close>

fun every :: "('a \<Rightarrow> exn + bool) \<Rightarrow> 'a list \<Rightarrow> exn + bool" where
  "every f [] = Inr True"
| "every f (x # xs) = (case f x of Inl e \<Rightarrow> Inl e | Inr b \<Rightarrow> if b then every f xs else Inr False)"

section \<open>The data model\<close>

record ParsedRule =
  rule_type :: string
  conditions :: "json list"
  action :: string
  reason :: string
  confidence_score :: rat

datatype ConversionResult = Success ParsedRule | Failure string "string list"

text \<open>
  \<^verbatim>\<open>JSON.parse(...) as ParsedRule\<close>: the typed view of a parsed object, read where
  \<open>validateParsedRule\<close> has accepted it.
\<close>

definition as_ParsedRule :: "json \<Rightarrow> ParsedRule" where
  "as_ParsedRule j =
     \<lparr>rule_type = str_of (get j ''rule_type''),
      conditions = arr_of (get j ''conditions''),
      action = str_of (get j ''action''),
      reason = str_of (get j ''reason''),
      confidence_score = num_of (get j ''confidence_score'')\<rparr>"

section \<open>GeminiService\<close>

text \<open>
  The service holds the generative model, \<^verbatim>\<open>null\<close> when none was initialised. The
  model is the composition \<^verbatim>\<open>generateContent\<close>, \<^verbatim>\<open>result.response\<close>, \<^verbatim>\<open>text()\<close>:
  from the prompt to the text, or a thrown value.
\<close>

record GeminiService =
  model :: "(string \<Rightarrow> exn + string) option"

text \<open>
  The downstream calls a parse makes, in order (a log the model adds): of the generative
  model with its prompt, of the fallback parser, and of the API client of the second
  \<open>RuleParser\<close>.
\<close>

datatype call = GenerateContent string | FallbackParsing string | ApiParseInstruction string

text \<open>The arrow U+2192 of the three example lines of the prompt is written \<open>->\<close>.\<close>

definition prompt_head :: string where
  "prompt_head =
      ''\<newline>'' @
      ''You are an expert audit rule parser. Convert the following natural language audit instruction into a structured JSON rule.\<newline>'' @
      ''\<newline>'' @
      ''INSTRUCTION: \"''"

definition prompt_tail :: string where
  "prompt_tail =
      ''\"\<newline>'' @
      ''\<newline>'' @
      ''Please analyze the instruction and return a JSON object with the following structure:\<newline>'' @
      ''{\<newline>'' @
      ''  \"rule_type\": \"string (one of: expense_amount_threshold, vendor_frequency, category_amount_threshold, duplicate_detection, time_based, compliance_check)\",\<newline>'' @
      ''  \"conditions\": [\<newline>'' @
      ''    {\<newline>'' @
      ''      \"field\": \"string (e.g., amount, vendor, category, time, etc.)\",\<newline>'' @
      ''      \"operator\": \"string (gt, lt, eq, ne, contains, not_contains, in, not_in)\",\<newline>'' @
      ''      \"value\": \"any (the threshold value, category name, etc.)\",\<newline>'' @
      ''      \"logical_operator\": \"string (AND, OR) - optional\"\<newline>'' @
      ''    }\<newline>'' @
      ''  ],\<newline>'' @
      ''  \"action\": \"string (flag, review, reject, approve)\",\<newline>'' @
      ''  \"reason\": \"string (human-readable explanation of what the rule does)\",\<newline>'' @
      ''  \"confidence_score\": \"number (0.0 to 1.0 indicating confidence in the parsing)\"\<newline>'' @
      ''}\<newline>'' @
      ''\<newline>'' @
      ''IMPORTANT RULES:\<newline>'' @
      ''1. Extract specific numeric thresholds (amounts, frequencies, percentages)\<newline>'' @
      ''2. Identify the main action (flag, review, reject, approve)\<newline>'' @
      ''3. Determine the rule type based on what's being checked\<newline>'' @
      ''4. Create logical conditions that can be evaluated programmatically\<newline>'' @
      ''5. Provide a confidence score based on how clear the instruction is\<newline>'' @
      ''6. If the instruction mentions \"not\" or exclusions, use appropriate operators\<newline>'' @
      ''7. For time-based rules, extract specific times or time ranges\<newline>'' @
      ''8. For duplicate detection, focus on matching criteria (amount, vendor, date, etc.)\<newline>'' @
      ''\<newline>'' @
      ''EXAMPLES:\<newline>'' @
      ''- \"Flag any expense above $1,000 not tagged as capital expenditure\" -> expense_amount_threshold with amount > 1000 AND category not_contains \"capital\"\<newline>'' @
      ''- \"If a vendor appears more than twice in one day, flag for review\" -> vendor_frequency with frequency > 2 AND timeframe = \"day\"\<newline>'' @
      ''- \"Review any expense after 10 PM\" -> time_based with time > \"22:00\"\<newline>'' @
      ''\<newline>'' @
      ''Return ONLY the JSON object, no additional text or explanation.\<newline>''"

definition buildPrompt :: "string \<Rightarrow> string" where
  "buildPrompt instruction = prompt_head @ instruction @ prompt_tail"

text \<open>\<^verbatim>\<open>response.match(/\{[\s\S]*\}/)\<close>\<close>

abbreviation object_rx :: rx where
  "object_rx \<equiv> Seq (Chr CHR ''{'') (Seq (Star AnyChar) (Chr CHR ''}''))"

definition jsonMatch :: "string \<Rightarrow> (string \<times> string option) option" where
  "jsonMatch response = rx_exec object_rx response"

definition condition_ok :: "json \<Rightarrow> exn + bool" where
  "condition_ok condition =
     (if condition = JNull then Inl (NullRead ''field'')
      else Inr (truthy (get condition ''field'') \<and> truthy (get condition ''operator'')
                \<and> get condition ''value'' \<noteq> None))"

definition validateParsedRule :: "json \<Rightarrow> exn + bool" where
  "validateParsedRule rule =
     (if truthy (Some rule)
         \<and> isString (get rule ''rule_type'')
         \<and> (case get rule ''conditions'' of Some (JArr cs) \<Rightarrow> True | _ \<Rightarrow> False)
         \<and> isString (get rule ''action'')
         \<and> isString (get rule ''reason'')
         \<and> isNumber (get rule ''confidence_score'')
         \<and> num_of (get rule ''confidence_score'') \<ge> 0
         \<and> num_of (get rule ''confidence_score'') \<le> 1
      then every condition_ok (arr_of (get rule ''conditions''))
      else Inr False)"

text \<open>The body of the \<^verbatim>\<open>try\<close> block of \<open>parseGeminiResponse\<close>.\<close>

definition parseGeminiResponse_try :: "js_engine \<Rightarrow> string \<Rightarrow> exn + ConversionResult" where
  "parseGeminiResponse_try E response =
     (case jsonMatch response of
        None \<Rightarrow> Inl (Error ''No JSON found in response'')
      | Some m \<Rightarrow>
          (case JSON_parse E (fst m) of
             Inl e \<Rightarrow> Inl e
           | Inr parsedRule \<Rightarrow>
               (case validateParsedRule parsedRule of
                  Inl e \<Rightarrow> Inl e
                | Inr ok \<Rightarrow>
                    if \<not> ok then Inl (Error ''Invalid rule structure from Gemini'')
                    else Inr (Success (as_ParsedRule parsedRule)))))"

definition parseGeminiResponse :: "js_engine \<Rightarrow> string \<Rightarrow> string \<Rightarrow> ConversionResult" where
  "parseGeminiResponse E response originalInstruction =
     (case parseGeminiResponse_try E response of
        Inr result \<Rightarrow> result
      | Inl error \<Rightarrow>
          Failure (''Failed to parse AI response: '' @ error_message E error)
            [''Try rephrasing your instruction more clearly'',
             ''Include specific amounts, categories, or conditions'',
             ''Use clear action words like \"flag\", \"review\", \"reject\", or \"approve\"''])"

definition actionKeywords :: "(string \<times> string list) list" where
  "actionKeywords =
     [(''flag'', [''flag'', ''mark'', ''highlight'', ''identify'']),
      (''review'', [''review'', ''check'', ''examine'', ''investigate'']),
      (''reject'', [''reject'', ''deny'', ''block'', ''prevent'']),
      (''approve'', [''approve'', ''accept'', ''allow'', ''permit''])]"

definition extractAction :: "string \<Rightarrow> string" where
  "extractAction instruction =
     (case find (\<lambda>(act, keywords). \<exists>keyword \<in> set keywords. includes_str instruction keyword)
                actionKeywords of
        Some (act, keywords) \<Rightarrow> act
      | None \<Rightarrow> ''flag'')"

definition determineRuleType :: "string \<Rightarrow> string option" where
  "determineRuleType instruction =
     (if rx_test (Alt (Seq (lit ''expense'') (Seq (Star Dot) (lit ''amount'')))
                 (Alt (Seq (lit ''amount'') (Seq (Star Dot) (lit ''above'')))
                      (Seq (lit ''cost'') (Seq (Star Dot) (lit ''over''))))) instruction
      then Some ''expense_amount_threshold''
      else if rx_test (Alt (Seq (lit ''vendor'') (Seq (Star Dot) (lit ''frequency'')))
                      (Alt (Seq (lit ''appears'') (Seq (Star Dot) (lit ''times'')))
                           (Seq (lit ''vendor'') (Seq (Star Dot) (lit ''day''))))) instruction
      then Some ''vendor_frequency''
      else if rx_test (Alt (Seq (lit ''category'') (Seq (Star Dot) (lit ''amount'')))
                      (Alt (Seq (lit ''tagged'') (Seq (Star Dot) (lit ''over'')))
                           (Seq (lit ''categorized'') (Seq (Star Dot) (lit ''above''))))) instruction
      then Some ''category_amount_threshold''
      else if rx_test (Alt (lit ''duplicate'')
                      (Alt (Seq (lit ''same'') (Seq (Star Dot) (lit ''transaction'')))
                           (lit ''identical''))) instruction
      then Some ''duplicate_detection''
      else if rx_test (Alt (lit ''time'') (Alt (lit ''after'') (Alt (lit ''before'')
                      (Alt (lit ''am'') (lit ''pm''))))) instruction
      then Some ''time_based''
      else None)"

text \<open>\<^verbatim>\<open>/\$?(\d+(?:,\d{3})*(?:\.\d{2})?)/\<close>\<close>

definition amount_rx :: rx where
  "amount_rx =
     Seq (Opt (Chr CHR ''$''))
         (Group (Seq (Plus Digit)
                (Seq (Star (Seq (Chr CHR '','') (Seq Digit (Seq Digit Digit))))
                     (Opt (Seq (Chr CHR ''.'') (Seq Digit Digit))))))"

definition extractBasicConditions :: "string \<Rightarrow> json list" where
  "extractBasicConditions instruction =
     (case rx_exec amount_rx instruction of
        None \<Rightarrow> []
      | Some amountMatch \<Rightarrow>
          [JObj [(''field'', JStr ''amount''),
                 (''operator'', JStr ''gt''),
                 (''value'',
                    (case parseFloat (filter (\<lambda>c. c \<noteq> CHR '','') (case snd amountMatch of Some g \<Rightarrow> g | None \<Rightarrow> []))
                     of Some n \<Rightarrow> JNum n | None \<Rightarrow> JNull))]])"

definition fallbackParsing :: "string \<Rightarrow> ConversionResult" where
  "fallbackParsing instruction =
     (let normalizedInstruction = trim (toLowerCase instruction);
          act = extractAction normalizedInstruction;
          ruleType = determineRuleType normalizedInstruction;
          conds = extractBasicConditions normalizedInstruction
      in case ruleType of
           None \<Rightarrow>
             Failure ''Could not determine rule type. Please check your Gemini API configuration.''
               [''Ensure VITE_GEMINI_API_KEY is set in your environment'',
                ''Try using more specific keywords like \"expense\", \"vendor\", \"category\"'',
                ''Include threshold amounts with $ symbol'']
         | Some ruleType \<Rightarrow>
             Success
               \<lparr>rule_type = ruleType,
                conditions = conds,
                action = act,
                reason = toUpperCase (take 1 act) @ drop 1 act @ '' based on ''
                           @ replace_first CHR ''_'' CHR '' '' ruleType,
                confidence_score = 6 / 10\<rparr>)"

text \<open>
  \<open>GeminiService.parseInstruction\<close>. The result is the outcome of the call: \<open>Inl\<close>
  would be an exception leaving the method.
\<close>

definition parseInstruction_try ::
    "js_engine \<Rightarrow> (string \<Rightarrow> exn + string) \<Rightarrow> string \<Rightarrow> exn + ConversionResult \<times> call list" where
  "parseInstruction_try E generateContent instruction =
     (let prompt = buildPrompt instruction
      in case generateContent prompt of
           Inl e \<Rightarrow> Inl e
         | Inr text \<Rightarrow> Inr (parseGeminiResponse E text instruction, [GenerateContent prompt]))"

definition GeminiService_parseInstruction ::
    "js_engine \<Rightarrow> GeminiService \<Rightarrow> string \<Rightarrow> exn + ConversionResult \<times> call list" where
  "GeminiService_parseInstruction E this instruction =
     (case model this of
        None \<Rightarrow> Inr (fallbackParsing instruction, [FallbackParsing instruction])
      | Some generateContent \<Rightarrow>
          (case parseInstruction_try E generateContent instruction of
             Inr r \<Rightarrow> Inr r
           | Inl error \<Rightarrow>
               Inr (fallbackParsing instruction,
                    [GenerateContent (buildPrompt instruction), FallbackParsing instruction])))"

section \<open>RuleParser\<close>

definition RuleParser_parseInstruction ::
    "js_engine \<Rightarrow> GeminiService \<Rightarrow> string \<Rightarrow> ConversionResult \<times> call list" where
  "RuleParser_parseInstruction E geminiService instruction =
     (if trim instruction = [] then
        (Failure ''Instruction cannot be empty'' [''Please provide a clear audit instruction''], [])
      else
        (case GeminiService_parseInstruction E geminiService instruction of
           Inr r \<Rightarrow> r
         | Inl error \<Rightarrow>
             (Failure (''Failed to parse instruction: '' @ error_message E error)
                [''Check your internet connection'',
                 ''Verify your Gemini API key is configured correctly'',
                 ''Try simplifying your instruction''],
              [])))"

text \<open>
  The \<open>RuleParser\<close> of \<^verbatim>\<open>src/services/ruleParser.ts\<close>, which asks the server through
  \<^verbatim>\<open>apiClient.parseInstruction\<close>. The client is not part of the sources: it is an
  argument, from the instruction to the response or a thrown value.
\<close>

definition RuleParser_api_parseInstruction ::
    "js_engine \<Rightarrow> (string \<Rightarrow> exn + ConversionResult) \<Rightarrow> string
       \<Rightarrow> ConversionResult \<times> call list" where
  "RuleParser_api_parseInstruction E apiClient_parseInstruction instruction =
     (if trim instruction = [] then
        (Failure ''Instruction cannot be empty'' [''Please provide a clear audit instruction''], [])
      else
        (case apiClient_parseInstruction instruction of
           Inr response \<Rightarrow> (response, [ApiParseInstruction instruction])
         | Inl error \<Rightarrow>
             (Failure (''Failed to parse instruction: '' @ error_message E error)
                [''Check your internet connection'',
                 ''Verify the backend server is running'',
                 ''Try simplifying your instruction''],
              [ApiParseInstruction instruction])))"

section \<open>RuleStorage\<close>

text \<open>
  \<^verbatim>\<open>localStorage\<close> maps a key to a text. The texts the store keeps are written by
  \<^verbatim>\<open>JSON.stringify\<close> or were accepted by \<^verbatim>\<open>JSON.parse\<close>; such a text is
  represented by the JSON value it denotes, so that \<^verbatim>\<open>JSON.parse(JSON.stringify(v))\<close>
  is \<open>v\<close>, two values have the same text exactly when they are equal, and the
  indentation \<^verbatim>\<open>JSON.stringify(v, null, 2)\<close> adds is not seen. A text handed to
  \<open>importRules\<close> may also be one that \<^verbatim>\<open>JSON.parse\<close> rejects, with the message of
  its \<^verbatim>\<open>SyntaxError\<close>.
\<close>

type_synonym localStorage = "string \<rightharpoonup> json"

datatype serialized = JSON_text json | Malformed string

fun JSON_parse_text :: "serialized \<Rightarrow> exn + json" where
  "JSON_parse_text (JSON_text v) = Inr v"
| "JSON_parse_text (Malformed m) = Inl (Error m)"

definition STORAGE_KEY :: string where
  "STORAGE_KEY = ''numina_audit_rules''"

definition VERSION_KEY :: string where
  "VERSION_KEY = ''numina_rule_versions''"

record AuditRule = ParsedRule +
  id' :: string
  version :: rat
  original_instruction :: string
  created_at :: string
  created_by :: string
  is_active :: bool

text \<open>What \<^verbatim>\<open>JSON.stringify\<close> writes for a rule: its members in the order \<open>saveRule\<close>
  creates them.\<close>

definition JSON_of_AuditRule :: "AuditRule \<Rightarrow> json" where
  "JSON_of_AuditRule r =
     JObj [(''id'', JStr (id' r)),
           (''version'', JNum (version r)),
           (''rule_type'', JStr (rule_type r)),
           (''conditions'', JArr (conditions r)),
           (''action'', JStr (action r)),
           (''reason'', JStr (reason r)),
           (''original_instruction'', JStr (original_instruction r)),
           (''created_at'', JStr (created_at r)),
           (''created_by'', JStr (created_by r)),
           (''is_active'', JBool (is_active r)),
           (''confidence_score'', JNum (confidence_score r))]"

text \<open>
  \<^verbatim>\<open>JSON.parse(stored) as AuditRule[]\<close>: the cast checks nothing. The typed view of a
  stored object reads its members; it is \<open>None\<close> for an object that is not the text of
  the rule read from it (a member missing, of another type, or members the interface
  does not have), where the typed operations below say nothing.
\<close>

definition as_AuditRule :: "json \<Rightarrow> AuditRule option" where
  "as_AuditRule j =
     (let r = \<lparr>rule_type = str_of (get j ''rule_type''),
               conditions = arr_of (get j ''conditions''),
               action = str_of (get j ''action''),
               reason = str_of (get j ''reason''),
               confidence_score = num_of (get j ''confidence_score''),
               id' = str_of (get j ''id''),
               version = num_of (get j ''version''),
               original_instruction = str_of (get j ''original_instruction''),
               created_at = str_of (get j ''created_at''),
               created_by = str_of (get j ''created_by''),
               is_active = bool_of (get j ''is_active'')\<rparr>
      in if JSON_of_AuditRule r = j then Some r else None)"

definition stringify_rules :: "AuditRule list \<Rightarrow> json" where
  "stringify_rules rules = JArr (map JSON_of_AuditRule rules)"

definition getAllRules :: "localStorage \<Rightarrow> AuditRule list option" where
  "getAllRules ls =
     (case ls STORAGE_KEY of
        None \<Rightarrow> Some []
      | Some stored \<Rightarrow> (case stored of JArr js \<Rightarrow> those (map as_AuditRule js) | _ \<Rightarrow> None))"

definition getVersionHistory :: "localStorage \<Rightarrow> json list option" where
  "getVersionHistory ls =
     (case ls VERSION_KEY of
        None \<Rightarrow> Some []
      | Some stored \<Rightarrow> (case stored of JArr es \<Rightarrow> Some es | _ \<Rightarrow> None))"

definition saveVersionHistory :: "AuditRule \<Rightarrow> localStorage \<Rightarrow> localStorage option" where
  "saveVersionHistory rule ls =
     (case getVersionHistory ls of
        None \<Rightarrow> None
      | Some versionHistory \<Rightarrow>
          Some (ls(VERSION_KEY \<mapsto>
            JArr (versionHistory @
              [JObj [(''rule_id'', JStr (id' rule)),
                     (''rule_type'', JStr (rule_type rule)),
                     (''version'', JNum (version rule)),
                     (''timestamp'', JStr (created_at rule)),
                     (''created_by'', JStr (created_by rule)),
                     (''action'', JStr ''created'')]]))))"

text \<open>
  \<open>saveRule\<close>. The identifier \<^verbatim>\<open>uuidv4()\<close> returns and the time
  \<^verbatim>\<open>new Date().toISOString()\<close> are arguments: \<open>uuid\<close> and \<open>now\<close>. The result is the
  new rule and the storage after the call; \<open>None\<close> where the stored texts are not typed as
  the code assumes.

  A version is a number of the code, an IEEE 754 double; here it is a rational, and
  \<^verbatim>\<open>existingRule.version + 1\<close> is the exact sum. The code's sum is that number when the
  version is an integer of magnitude below \<open>2^53\<close>; from \<open>2^53\<close> on the code's sum is
  rounded (\<open>2^53 + 1\<close> is \<open>2^53\<close> again), and for a version that is no integer it may
  be. The versions of a store filled from the empty store are integers counted from 1,
  none beyond the number of stored rules (\<open>counted_versions\<close> below), so there the two
  sums are one while fewer than \<open>2^53\<close> rules are stored. A property of the incremented
  version over stores with any content is stated for versions in the exact range
  (\<open>exact_successors\<close> below).
\<close>

definition saveRule ::
    "string \<Rightarrow> string \<Rightarrow> ParsedRule \<Rightarrow> string \<Rightarrow> string \<Rightarrow> localStorage
       \<Rightarrow> (AuditRule \<times> localStorage) option" where
  "saveRule uuid now parsedRule originalInstruction createdBy ls =
     (case getAllRules ls of
        None \<Rightarrow> None
      | Some existingRules \<Rightarrow>
          (case find (\<lambda>rule. rule_type rule = rule_type parsedRule
                              \<and> is_active rule
                              \<and> conditions rule = conditions parsedRule) existingRules of
             Some existingRule \<Rightarrow>
               (let newRule = existingRule
                      \<lparr>id' := uuid,
                       version := version existingRule + 1,
                       original_instruction := originalInstruction,
                       created_at := now,
                       created_by := createdBy,
                       confidence_score := confidence_score parsedRule\<rparr>;
                    deactivated = existingRule\<lparr>is_active := False\<rparr>;
                    updatedRules =
                      map (\<lambda>rule. if id' rule = id' existingRule then deactivated else rule)
                          existingRules @ [newRule]
                in map_option (Pair newRule)
                     (saveVersionHistory newRule (ls(STORAGE_KEY \<mapsto> stringify_rules updatedRules))))
           | None \<Rightarrow>
               (let newRule =
                      \<lparr>rule_type = rule_type parsedRule,
                       conditions = conditions parsedRule,
                       action = action parsedRule,
                       reason = reason parsedRule,
                       confidence_score = confidence_score parsedRule,
                       id' = uuid,
                       version = 1,
                       original_instruction = originalInstruction,
                       created_at = now,
                       created_by = createdBy,
                       is_active = True\<rparr>;
                    updatedRules = existingRules @ [newRule]
                in map_option (Pair newRule)
                     (saveVersionHistory newRule (ls(STORAGE_KEY \<mapsto> stringify_rules updatedRules))))))"

definition getActiveRules :: "localStorage \<Rightarrow> AuditRule list option" where
  "getActiveRules ls = map_option (filter is_active) (getAllRules ls)"

text \<open>\<^verbatim>\<open>xs.findIndex(p)\<close>; \<open>None\<close> is \<open>-1\<close>.\<close>

fun findIndex :: "('a \<Rightarrow> bool) \<Rightarrow> 'a list \<Rightarrow> nat option" where
  "findIndex p [] = None"
| "findIndex p (x # xs) = (if p x then Some 0 else map_option Suc (findIndex p xs))"

definition deactivateRule :: "string \<Rightarrow> localStorage \<Rightarrow> (bool \<times> localStorage) option" where
  "deactivateRule i ls =
     (case getAllRules ls of
        None \<Rightarrow> None
      | Some rules \<Rightarrow>
          (case findIndex (\<lambda>rule. id' rule = i) rules of
             None \<Rightarrow> Some (False, ls)
           | Some ruleIndex \<Rightarrow>
               Some (True,
                     ls(STORAGE_KEY \<mapsto>
                        stringify_rules (rules[ruleIndex := (rules ! ruleIndex)\<lparr>is_active := False\<rparr>])))))"

text \<open>
  \<open>rollbackToVersion\<close>. \<^verbatim>\<open>targetRule\<close> is the element of \<^verbatim>\<open>rules\<close> that
  \<^verbatim>\<open>find\<close> returned, so the activation writes into the list at its index. The result
  is the rule returned (\<open>None\<close> is \<^verbatim>\<open>null\<close>) and the storage after the call.
\<close>

definition rollbackToVersion ::
    "string \<Rightarrow> rat \<Rightarrow> localStorage \<Rightarrow> (AuditRule option \<times> localStorage) option" where
  "rollbackToVersion ruleType v ls =
     (case getAllRules ls of
        None \<Rightarrow> None
      | Some rules \<Rightarrow>
          (case findIndex (\<lambda>rule. rule_type rule = ruleType \<and> version rule = v) rules of
             None \<Rightarrow> Some (None, ls)
           | Some targetIndex \<Rightarrow>
               (let deactivated =
                      map (\<lambda>rule. if rule_type rule = ruleType \<and> is_active rule
                                   then rule\<lparr>is_active := False\<rparr> else rule) rules;
                    targetRule = (deactivated ! targetIndex)\<lparr>is_active := True\<rparr>
                in Some (Some targetRule,
                         ls(STORAGE_KEY \<mapsto> stringify_rules (deactivated[targetIndex := targetRule]))))))"

definition exportRules :: "localStorage \<Rightarrow> serialized option" where
  "exportRules ls = map_option (\<lambda>rules. JSON_text (stringify_rules rules)) (getAllRules ls)"

text \<open>The test \<open>importRules\<close> applies to one element of the decoded array.\<close>

definition import_rule_ok :: "json \<Rightarrow> exn + bool" where
  "import_rule_ok rule =
     (if rule = JNull then Inl (NullRead ''id'')
      else Inr (truthy (get rule ''id'')
                \<and> truthy (get rule ''rule_type'')
                \<and> truthy (get rule ''conditions'')
                \<and> truthy (get rule ''action'')
                \<and> get rule ''version'' \<noteq> None))"

text \<open>The body of the \<^verbatim>\<open>try\<close> block of \<open>importRules\<close>.\<close>

definition importRules_try :: "serialized \<Rightarrow> localStorage \<Rightarrow> exn + bool \<times> localStorage" where
  "importRules_try rulesJson ls =
     (case JSON_parse_text rulesJson of
        Inl e \<Rightarrow> Inl e
      | Inr rules \<Rightarrow>
          (case rules of
             JArr elems \<Rightarrow>
               (case every import_rule_ok elems of
                  Inl e \<Rightarrow> Inl e
                | Inr isValid \<Rightarrow>
                    if \<not> isValid then Inr (False, ls)
                    else Inr (True, ls(STORAGE_KEY \<mapsto> rules)))
           | _ \<Rightarrow> Inr (False, ls)))"

definition importRules :: "serialized \<Rightarrow> localStorage \<Rightarrow> bool \<times> localStorage" where
  "importRules rulesJson ls =
     (case importRules_try rulesJson ls of
        Inr r \<Rightarrow> r
      | Inl e \<Rightarrow> (False, ls))"

definition clearAllRules :: "localStorage \<Rightarrow> localStorage" where
  "clearAllRules ls = ls(STORAGE_KEY := None, VERSION_KEY := None)"

section \<open>Store states and runs of store operations\<close>

text \<open>
  The lineage signature of a rule: its rule type and its conditions. \<open>saveRule\<close>
  looks for an active rule with the signature of the parsed rule.
\<close>

definition lineage :: "'a ParsedRule_scheme \<Rightarrow> string \<times> json list" where
  "lineage r = (rule_type r, conditions r)"

text \<open>
  A run of the store: the calls made one after the other, each with what the
  environment supplied to it (for a save, the identifier and the time), from a given
  storage. A run is \<open>None\<close> where one of its calls is.
\<close>

datatype store_op =
    is_Save: Save (save_uuid: string) (save_now: string) (save_rule: ParsedRule)
                  (save_instruction: string) (save_by: string)
  | Rollback string rat
  | Deactivate string

fun apply_op :: "store_op \<Rightarrow> localStorage \<Rightarrow> localStorage option" where
  "apply_op (Save uuid now parsedRule originalInstruction createdBy) ls =
     map_option snd (saveRule uuid now parsedRule originalInstruction createdBy ls)"
| "apply_op (Rollback ruleType v) ls = map_option snd (rollbackToVersion ruleType v ls)"
| "apply_op (Deactivate i) ls = map_option snd (deactivateRule i ls)"

fun run_ops :: "store_op list \<Rightarrow> localStorage \<Rightarrow> localStorage option" where
  "run_ops [] ls = Some ls"
| "run_ops (op # ops) ls = (case apply_op op ls of None \<Rightarrow> None | Some ls' \<Rightarrow> run_ops ops ls')"

text \<open>
  What \<open>importRules\<close> requires, said once for an element and once for a payload: the
  element has a truthy \<^verbatim>\<open>id\<close>, \<^verbatim>\<open>rule_type\<close>, \<^verbatim>\<open>conditions\<close> and \<^verbatim>\<open>action\<close> and a
  \<^verbatim>\<open>version\<close> that is not \<^verbatim>\<open>undefined\<close>; the payload is the text of an array of such
  elements.
\<close>

definition has_required :: "json \<Rightarrow> bool" where
  "has_required e =
     (truthy (get e ''id'') \<and> truthy (get e ''rule_type'') \<and> truthy (get e ''conditions'')
      \<and> truthy (get e ''action'') \<and> get e ''version'' \<noteq> None)"

definition valid_payload :: "serialized \<Rightarrow> bool" where
  "valid_payload payload =
     (case payload of
        JSON_text doc \<Rightarrow> (case doc of JArr elems \<Rightarrow> list_all has_required elems | _ \<Rightarrow> False)
      | Malformed m \<Rightarrow> False)"

text \<open>
  \<^verbatim>\<open>exportRules()\<close>, then \<^verbatim>\<open>clearAllRules()\<close>, then \<^verbatim>\<open>importRules\<close> of the exported
  text: the result of the import and the storage after it.
\<close>

definition export_clear_import :: "localStorage \<Rightarrow> (bool \<times> localStorage) option" where
  "export_clear_import ls =
     map_option (\<lambda>exported. importRules exported (clearAllRules ls)) (exportRules ls)"

text \<open>Invariants of the list of stored rules, used in the proofs about runs.\<close>

text \<open>A rule with its activity flag set: two rules that differ in the flag only have
  the same image.\<close>

definition activated :: "AuditRule \<Rightarrow> AuditRule" where
  "activated r = r\<lparr>is_active := True\<rparr>"

definition positive_versions :: "AuditRule list \<Rightarrow> bool" where
  "positive_versions rules = (\<forall>r\<in>set rules. version r \<in> \<nat> \<and> 0 < version r)"

definition named_rules :: "AuditRule list \<Rightarrow> bool" where
  "named_rules rules = (\<forall>r\<in>set rules. id' r \<noteq> [] \<and> rule_type r \<noteq> [] \<and> action r \<noteq> [])"

definition lineage_inv :: "AuditRule list \<Rightarrow> bool" where
  "lineage_inv rules =
     (distinct (map id' rules)
      \<and> (\<forall>r\<in>set rules. \<exists>a\<in>set rules. lineage a = lineage r \<and> is_active a)
      \<and> (\<forall>r\<in>set rules. \<forall>a\<in>set rules. lineage a = lineage r \<and> is_active a \<longrightarrow> version r \<le> version a)
      \<and> (\<forall>a\<in>set rules. \<forall>b\<in>set rules. lineage a = lineage b \<and> is_active a \<and> is_active b \<longrightarrow> a = b))"

text \<open>
  At most one active rule for each lineage signature, counted by position in the stored
  list.
\<close>

definition one_active_per_lineage :: "AuditRule list \<Rightarrow> bool" where
  "one_active_per_lineage rules = distinct (map lineage (filter is_active rules))"

text \<open>Versions that are integers counted from 1, none beyond the number of stored rules.\<close>

definition counted_versions :: "AuditRule list \<Rightarrow> bool" where
  "counted_versions rules =
     (\<forall>r\<in>set rules. version r \<in> \<int> \<and> 1 \<le> version r \<and> version r \<le> of_nat (length rules))"

text \<open>
  The code's numbers are IEEE 754 doubles, which hold every integer of magnitude up to
  \<open>2^53\<close> and add such integers exactly while the sum stays in that range. For a version
  \<open>v\<close> with \<open>exact_successors v\<close> the sums \<open>v + 1\<close> and \<open>v + 2\<close> that two saves compute
  are therefore the numbers the code computes.
\<close>

definition exact_successors :: "rat \<Rightarrow> bool" where
  "exact_successors v = (v \<in> \<int> \<and> \<bar>v\<bar> + 2 \<le> 2 ^ 53)"

text \<open>A rule with one condition on the amount, for the examples.\<close>

definition amount_rule :: "string \<Rightarrow> string \<Rightarrow> rat \<Rightarrow> rat \<Rightarrow> bool \<Rightarrow> AuditRule" where
  "amount_rule i t n v a =
     \<lparr>rule_type = t,
      conditions = [JObj [(''field'', JStr ''amount''), (''operator'', JStr ''gt''), (''value'', JNum n)]],
      action = ''flag'',
      reason = ''Flag based on amount'',
      confidence_score = 6 / 10,
      id' = i,
      version = v,
      original_instruction = ''Flag amounts'',
      created_at = ''2024-01-01T00:00:00.000Z'',
      created_by = ''system'',
      is_active = a\<rparr>"

definition amount_parsed :: "string \<Rightarrow> rat \<Rightarrow> string \<Rightarrow> ParsedRule" where
  "amount_parsed t n a =
     \<lparr>rule_type = t,
      conditions = [JObj [(''field'', JStr ''amount''), (''operator'', JStr ''gt''), (''value'', JNum n)]],
      action = a,
      reason = ''Flag based on amount'',
      confidence_score = 6 / 10\<rparr>"

section \<open>The extraction the specification describes\<close>



section \<open>Properties of the parsers\<close>

lemma dropWhile_all: "\<forall>c\<in>set s. P c \<Longrightarrow> dropWhile P s = []"
  by (induction s) auto

lemma trim_blank: "\<forall>c\<in>set s. isWhiteSpace c \<Longrightarrow> trim s = []"
  by (simp add: trim_def dropWhile_all)

subsection \<open>The match of the object pattern\<close>
















lemma parseGeminiResponse_no_match:
  "jsonMatch response = None \<Longrightarrow>
   parseGeminiResponse_try E response = Inl (Error ''No JSON found in response'')
   \<and> parseGeminiResponse E response instruction =
       Failure ''Failed to parse AI response: No JSON found in response''
         [''Try rephrasing your instruction more clearly'',
          ''Include specific amounts, categories, or conditions'',
          ''Use clear action words like \"flag\", \"review\", \"reject\", or \"approve\"'']"
  by (simp add: parseGeminiResponse_def parseGeminiResponse_try_def error_message_def)

subsection \<open>The empty instruction\<close>

text \<open>
  Claim C7. For every empty or whitespace-only instruction, \<open>parseInstruction\<close> (of
  either \<open>RuleParser\<close>) returns \<^verbatim>\<open>success: false\<close> with the error
  \<^verbatim>\<open>Instruction cannot be empty\<close> and the one suggestion
  \<^verbatim>\<open>Please provide a clear audit instruction\<close>, and makes no downstream call: the log
  of calls to the generative model, to the fallback parser and to the API client is
  empty, whatever the service, the client and the runtime are.
\<close>

theorem blank_instruction_rejected:
  "\<forall>c\<in>set instruction. isWhiteSpace c \<Longrightarrow>
   RuleParser_parseInstruction E geminiService instruction =
     (Failure ''Instruction cannot be empty'' [''Please provide a clear audit instruction''], [])
   \<and> RuleParser_api_parseInstruction E apiClient_parseInstruction instruction =
     (Failure ''Instruction cannot be empty'' [''Please provide a clear audit instruction''], [])"
  by (simp add: RuleParser_parseInstruction_def RuleParser_api_parseInstruction_def trim_blank)

text \<open>The instruction of a space, a tab and a line feed, with a model available.\<close>

theorem blank_instruction_rejected_witness:
  "RuleParser_parseInstruction
     \<lparr>JSON_parse = (\<lambda>s. Inl (Error ''Unexpected token'')), TypeError_message = (\<lambda>p. p)\<rparr>
     \<lparr>model = Some (\<lambda>prompt. Inr ''{}'')\<rparr>
     [CHR 0x20, CHR 0x09, CHR 0x0A] =
     (Failure ''Instruction cannot be empty'' [''Please provide a clear audit instruction''], [])
   \<and> RuleParser_api_parseInstruction
     \<lparr>JSON_parse = (\<lambda>s. Inl (Error ''Unexpected token'')), TypeError_message = (\<lambda>p. p)\<rparr>
     (\<lambda>instruction. Inl (Error ''Network Error''))
     [CHR 0x20, CHR 0x09, CHR 0x0A] =
     (Failure ''Instruction cannot be empty'' [''Please provide a clear audit instruction''], [])"
  by (rule blank_instruction_rejected) (simp add: isWhiteSpace_def)

subsection \<open>The fallback parser on the example instruction\<close>

lemma fallback_expense_above:
  "fallbackParsing ''Flag any expense above $1,000'' =
     Failure ''Could not determine rule type. Please check your Gemini API configuration.''
       [''Ensure VITE_GEMINI_API_KEY is set in your environment'',
        ''Try using more specific keywords like \"expense\", \"vendor\", \"category\"'',
        ''Include threshold amounts with $ symbol'']"
  by code_simp

text \<open>
  Claim C2. With no model initialised, \<open>parseInstruction\<close> applied to
  \<^verbatim>\<open>Flag any expense above $1,000\<close> should return the heuristic rule
  \<open>expense_amount_threshold\<close>. The code returns the failure
  \<^verbatim>\<open>Could not determine rule type\<close>: none of the five patterns of
  \<open>determineRuleType\<close> matches the instruction, which has neither \<^verbatim>\<open>amount\<close>,
  \<^verbatim>\<open>cost\<close> nor \<^verbatim>\<open>over\<close> in it.
\<close>

theorem expense_above_not_recognised:
  "GeminiService_parseInstruction E \<lparr>model = None\<rparr> ''Flag any expense above $1,000'' =
     Inr (Failure ''Could not determine rule type. Please check your Gemini API configuration.''
            [''Ensure VITE_GEMINI_API_KEY is set in your environment'',
             ''Try using more specific keywords like \"expense\", \"vendor\", \"category\"'',
             ''Include threshold amounts with $ symbol''],
          [FallbackParsing ''Flag any expense above $1,000''])
   \<and> fst (RuleParser_parseInstruction E \<lparr>model = None\<rparr> ''Flag any expense above $1,000'') =
     Failure ''Could not determine rule type. Please check your Gemini API configuration.''
            [''Ensure VITE_GEMINI_API_KEY is set in your environment'',
             ''Try using more specific keywords like \"expense\", \"vendor\", \"category\"'',
             ''Include threshold amounts with $ symbol'']"
proof -
  have "trim ''Flag any expense above $1,000'' \<noteq> []"
    by code_simp
  then show ?thesis
    by (simp add: RuleParser_parseInstruction_def GeminiService_parseInstruction_def
        fallback_expense_above)
qed

subsection \<open>What the response handling extracts\<close>

lemma jsonMatch_no_braces: "jsonMatch ''Sorry, I cannot help.'' = None"
  by code_simp




subsection \<open>Failures of the model and of its response\<close>

lemma fallback_duplicate:
  "fallbackParsing ''Flag duplicate payments'' =
     Success \<lparr>rule_type = ''duplicate_detection'', conditions = [], action = ''flag'',
              reason = ''Flag based on duplicate detection'', confidence_score = 6 / 10\<rparr>"
  by code_simp

lemma parse_available_text:
  "model this = Some generateContent \<Longrightarrow> generateContent (buildPrompt instruction) = Inr text \<Longrightarrow>
   GeminiService_parseInstruction E this instruction =
     Inr (parseGeminiResponse E text instruction, [GenerateContent (buildPrompt instruction)])"
  by (simp add: GeminiService_parseInstruction_def parseInstruction_try_def)

lemma parse_available_throw:
  "model this = Some generateContent \<Longrightarrow> generateContent (buildPrompt instruction) = Inl e \<Longrightarrow>
   GeminiService_parseInstruction E this instruction =
     Inr (fallbackParsing instruction,
          [GenerateContent (buildPrompt instruction), FallbackParsing instruction])"
  by (simp add: GeminiService_parseInstruction_def parseInstruction_try_def)

lemma parse_never_throws: "\<exists>r. GeminiService_parseInstruction E this instruction = Inr r"
  by (auto simp: GeminiService_parseInstruction_def split: option.splits sum.splits)

lemma malformed_throws:
  "jsonMatch text = None
   \<or> (\<exists>m e. jsonMatch text = Some m \<and> JSON_parse E (fst m) = Inl e)
   \<or> (\<exists>m j. jsonMatch text = Some m \<and> JSON_parse E (fst m) = Inr j \<and> validateParsedRule j \<noteq> Inr True)
   \<Longrightarrow> \<exists>e. parseGeminiResponse_try E text = Inl e"
  by (auto simp: parseGeminiResponse_try_def split: option.splits sum.splits)

lemma response_failure:
  "parseGeminiResponse_try E text = Inl e \<Longrightarrow>
   parseGeminiResponse E text instruction =
     Failure (''Failed to parse AI response: '' @ error_message E e)
       [''Try rephrasing your instruction more clearly'',
        ''Include specific amounts, categories, or conditions'',
        ''Use clear action words like \"flag\", \"review\", \"reject\", or \"approve\"'']"
  by (simp add: parseGeminiResponse_def)

lemma no_json_terminal:
  "GeminiService_parseInstruction E \<lparr>model = Some (\<lambda>prompt. Inr ''Sorry, I cannot help.'')\<rparr>
      instruction =
     Inr (Failure ''Failed to parse AI response: No JSON found in response''
            [''Try rephrasing your instruction more clearly'',
             ''Include specific amounts, categories, or conditions'',
             ''Use clear action words like \"flag\", \"review\", \"reject\", or \"approve\"''],
          [GenerateContent (buildPrompt instruction)])"
  using parse_available_text [of "\<lparr>model = Some (\<lambda>prompt. Inr ''Sorry, I cannot help.'')\<rparr>"
      "\<lambda>prompt. Inr ''Sorry, I cannot help.''" instruction "''Sorry, I cannot help.''" E]
    parseGeminiResponse_no_match [OF jsonMatch_no_braces, of E instruction]
  by simp

text \<open>
  Claim C1, as amended. With a model available, no exception leaves
  \<open>GeminiService.parseInstruction\<close>. When the call of the model throws, the method falls
  through to the fallback parser and returns its result. When the model returns a
  response, the result is that of \<open>parseGeminiResponse\<close> and the fallback parser is not
  called; for a malformed response (no JSON to extract, a \<^verbatim>\<open>JSON.parse\<close> failure, or
  a failed validation) it is the terminal failure
  \<^verbatim>\<open>Failed to parse AI response: ...\<close> with the three suggestions.
\<close>

theorem parseInstruction_available_outcomes:
  assumes "model this = Some generateContent"
  shows "(\<exists>r. GeminiService_parseInstruction E this instruction = Inr r)
    \<and> (\<forall>e. generateContent (buildPrompt instruction) = Inl e \<longrightarrow>
          GeminiService_parseInstruction E this instruction =
            Inr (fallbackParsing instruction,
                 [GenerateContent (buildPrompt instruction), FallbackParsing instruction]))
    \<and> (\<forall>text. generateContent (buildPrompt instruction) = Inr text \<longrightarrow>
          GeminiService_parseInstruction E this instruction =
            Inr (parseGeminiResponse E text instruction, [GenerateContent (buildPrompt instruction)])
          \<and> (jsonMatch text = None
               \<or> (\<exists>m e. jsonMatch text = Some m \<and> JSON_parse E (fst m) = Inl e)
               \<or> (\<exists>m j. jsonMatch text = Some m \<and> JSON_parse E (fst m) = Inr j
                          \<and> validateParsedRule j \<noteq> Inr True)
             \<longrightarrow> (\<exists>e. parseGeminiResponse_try E text = Inl e
                      \<and> parseGeminiResponse E text instruction =
                          Failure (''Failed to parse AI response: '' @ error_message E e)
                            [''Try rephrasing your instruction more clearly'',
                             ''Include specific amounts, categories, or conditions'',
                             ''Use clear action words like \"flag\", \"review\", \"reject\", or \"approve\"''])))"
proof (intro conjI allI impI)
  show "\<exists>r. GeminiService_parseInstruction E this instruction = Inr r"
    by (rule parse_never_throws)
next
  fix e assume "generateContent (buildPrompt instruction) = Inl e"
  with assms show "GeminiService_parseInstruction E this instruction =
            Inr (fallbackParsing instruction,
                 [GenerateContent (buildPrompt instruction), FallbackParsing instruction])"
    by (rule parse_available_throw)
next
  fix reply assume "generateContent (buildPrompt instruction) = Inr reply"
  with assms show "GeminiService_parseInstruction E this instruction =
            Inr (parseGeminiResponse E reply instruction, [GenerateContent (buildPrompt instruction)])"
    by (rule parse_available_text)
next
  fix reply
  assume "jsonMatch reply = None
               \<or> (\<exists>m e. jsonMatch reply = Some m \<and> JSON_parse E (fst m) = Inl e)
               \<or> (\<exists>m j. jsonMatch reply = Some m \<and> JSON_parse E (fst m) = Inr j
                          \<and> validateParsedRule j \<noteq> Inr True)"
  then obtain e where "parseGeminiResponse_try E reply = Inl e"
    using malformed_throws by blast
  then show "\<exists>e. parseGeminiResponse_try E reply = Inl e
                      \<and> parseGeminiResponse E reply instruction =
                          Failure (''Failed to parse AI response: '' @ error_message E e)
                            [''Try rephrasing your instruction more clearly'',
                             ''Include specific amounts, categories, or conditions'',
                             ''Use clear action words like \"flag\", \"review\", \"reject\", or \"approve\"'']"
    using response_failure by blast
qed

text \<open>A model whose call throws, and a model that answers without any JSON.\<close>

theorem parseInstruction_available_outcomes_witness:
  "GeminiService_parseInstruction
     \<lparr>JSON_parse = (\<lambda>s. Inl (Error ''Unexpected token'')), TypeError_message = (\<lambda>p. p)\<rparr>
     \<lparr>model = Some (\<lambda>prompt. Inl (Error ''fetch failed''))\<rparr> ''Flag duplicate payments'' =
     Inr (fallbackParsing ''Flag duplicate payments'',
          [GenerateContent (buildPrompt ''Flag duplicate payments''),
           FallbackParsing ''Flag duplicate payments''])
   \<and> GeminiService_parseInstruction
     \<lparr>JSON_parse = (\<lambda>s. Inl (Error ''Unexpected token'')), TypeError_message = (\<lambda>p. p)\<rparr>
     \<lparr>model = Some (\<lambda>prompt. Inr ''Sorry, I cannot help.'')\<rparr> ''Flag duplicate payments'' =
     Inr (Failure ''Failed to parse AI response: No JSON found in response''
            [''Try rephrasing your instruction more clearly'',
             ''Include specific amounts, categories, or conditions'',
             ''Use clear action words like \"flag\", \"review\", \"reject\", or \"approve\"''],
          [GenerateContent (buildPrompt ''Flag duplicate payments'')])"
proof -
  let ?E = "\<lparr>JSON_parse = (\<lambda>s. Inl (Error ''Unexpected token'')), TypeError_message = (\<lambda>p. p)\<rparr>"
  have "model \<lparr>model = Some (\<lambda>prompt. Inl (Error ''fetch failed''))\<rparr>
          = Some (\<lambda>prompt. Inl (Error ''fetch failed''))"
    by simp
  from parseInstruction_available_outcomes [OF this, of ?E "''Flag duplicate payments''"]
  have a: "GeminiService_parseInstruction ?E
      \<lparr>model = Some (\<lambda>prompt. Inl (Error ''fetch failed''))\<rparr> ''Flag duplicate payments'' =
     Inr (fallbackParsing ''Flag duplicate payments'',
          [GenerateContent (buildPrompt ''Flag duplicate payments''),
           FallbackParsing ''Flag duplicate payments''])"
    by blast
  have "model \<lparr>model = Some (\<lambda>prompt. Inr ''Sorry, I cannot help.'')\<rparr>
          = Some (\<lambda>prompt. Inr ''Sorry, I cannot help.'')"
    by simp
  from parseInstruction_available_outcomes [OF this, of ?E "''Flag duplicate payments''"]
  have "GeminiService_parseInstruction ?E
      \<lparr>model = Some (\<lambda>prompt. Inr ''Sorry, I cannot help.'')\<rparr> ''Flag duplicate payments'' =
     Inr (parseGeminiResponse ?E ''Sorry, I cannot help.'' ''Flag duplicate payments'',
          [GenerateContent (buildPrompt ''Flag duplicate payments'')])"
    by blast
  with parseGeminiResponse_no_match [OF jsonMatch_no_braces, of ?E "''Flag duplicate payments''"]
  show ?thesis using a by simp
qed

text \<open>
  Claim C1 as stated fails: the model answers without any JSON, the fallback parser
  would have recognised the instruction, and the method returns the failure without
  calling it.
\<close>

theorem malformed_response_counterexample:
  "GeminiService_parseInstruction
     \<lparr>JSON_parse = (\<lambda>s. Inl (Error ''Unexpected token'')), TypeError_message = (\<lambda>p. p)\<rparr>
     \<lparr>model = Some (\<lambda>prompt. Inr ''Sorry, I cannot help.'')\<rparr> ''Flag duplicate payments'' =
     Inr (Failure ''Failed to parse AI response: No JSON found in response''
            [''Try rephrasing your instruction more clearly'',
             ''Include specific amounts, categories, or conditions'',
             ''Use clear action words like \"flag\", \"review\", \"reject\", or \"approve\"''],
          [GenerateContent (buildPrompt ''Flag duplicate payments'')])
   \<and> fallbackParsing ''Flag duplicate payments'' =
     Success \<lparr>rule_type = ''duplicate_detection'', conditions = [], action = ''flag'',
              reason = ''Flag based on duplicate detection'', confidence_score = 6 / 10\<rparr>"
  using no_json_terminal fallback_duplicate by simp

section \<open>Properties of the rule store\<close>

lemma keys_differ: "STORAGE_KEY \<noteq> VERSION_KEY"
  by (simp add: STORAGE_KEY_def VERSION_KEY_def)

lemma as_AuditRule_JSON: "as_AuditRule (JSON_of_AuditRule r) = Some r"
  by (simp add: as_AuditRule_def JSON_of_AuditRule_def get_def)

lemma those_as_AuditRule: "those (map as_AuditRule (map JSON_of_AuditRule rs)) = Some rs"
  by (induction rs) (simp_all add: as_AuditRule_JSON del: map_map)

lemma getAllRules_stored:
  "ls STORAGE_KEY = Some (stringify_rules rs) \<Longrightarrow> getAllRules ls = Some rs"
  by (simp add: getAllRules_def stringify_rules_def those_as_AuditRule del: map_map)

lemma as_AuditRule_Some: "as_AuditRule j = Some r \<Longrightarrow> j = JSON_of_AuditRule r"
  by (auto simp: as_AuditRule_def Let_def split: if_splits)

lemma those_as_AuditRule_inv:
  "those (map as_AuditRule js) = Some rs \<Longrightarrow> js = map JSON_of_AuditRule rs"
proof (induction js arbitrary: rs)
  case Nil
  then show ?case by simp
next
  case (Cons j js)
  then show ?case by (auto split: option.splits dest: as_AuditRule_Some)
qed

lemma getAllRules_Some_cases:
  "getAllRules ls = Some rs \<Longrightarrow>
     (ls STORAGE_KEY = None \<and> rs = []) \<or> ls STORAGE_KEY = Some (stringify_rules rs)"
  by (auto simp: getAllRules_def stringify_rules_def split: option.splits json.splits
      dest: those_as_AuditRule_inv)

lemma getAllRules_upd_versions [simp]: "getAllRules (ls(VERSION_KEY \<mapsto> x)) = getAllRules ls"
  using keys_differ by (simp add: getAllRules_def)

lemma getVersionHistory_upd_rules [simp]:
  "getVersionHistory (ls(STORAGE_KEY \<mapsto> x)) = getVersionHistory ls"
  using keys_differ by (simp add: getVersionHistory_def)

lemma getAllRules_upd_rules [simp]:
  "getAllRules (ls(STORAGE_KEY \<mapsto> stringify_rules rs)) = Some rs"
  by (simp add: getAllRules_stored)

lemma getVersionHistory_upd_versions [simp]:
  "getVersionHistory (ls(VERSION_KEY \<mapsto> JArr es)) = Some es"
  by (simp add: getVersionHistory_def)

lemma saveVersionHistory_typed:
  "getVersionHistory ls = Some h \<Longrightarrow>
   \<exists>e. saveVersionHistory r ls = Some (ls(VERSION_KEY \<mapsto> JArr (h @ [e])))"
  by (simp add: saveVersionHistory_def) blast

lemma saveRule_new:
  assumes "getAllRules ls = Some rules" and "getVersionHistory ls = Some h"
    and "find (\<lambda>rule. rule_type rule = rule_type p \<and> is_active rule
                        \<and> conditions rule = conditions p) rules = None"
    and "n = \<lparr>rule_type = rule_type p, conditions = conditions p, action = action p,
              reason = reason p, confidence_score = confidence_score p, id' = uuid,
              version = 1, original_instruction = i, created_at = now, created_by = c,
              is_active = True\<rparr>"
  shows "\<exists>ls' h'. saveRule uuid now p i c ls = Some (n, ls')
           \<and> getAllRules ls' = Some (rules @ [n]) \<and> getVersionHistory ls' = Some h'"
proof -
  obtain e where "saveVersionHistory n (ls(STORAGE_KEY \<mapsto> stringify_rules (rules @ [n])))
      = Some (ls(STORAGE_KEY \<mapsto> stringify_rules (rules @ [n]), VERSION_KEY \<mapsto> JArr (h @ [e])))"
    using saveVersionHistory_typed [of "ls(STORAGE_KEY \<mapsto> stringify_rules (rules @ [n]))" h n]
      assms(2) by auto
  then show ?thesis
    using assms by (simp add: saveRule_def Let_def)
qed

lemma saveRule_existing:
  assumes "getAllRules ls = Some rules" and "getVersionHistory ls = Some h"
    and "find (\<lambda>rule. rule_type rule = rule_type p \<and> is_active rule
                        \<and> conditions rule = conditions p) rules = Some ex"
    and "n = ex\<lparr>id' := uuid, version := version ex + 1, original_instruction := i,
                 created_at := now, created_by := c, confidence_score := confidence_score p\<rparr>"
  shows "\<exists>ls' h'. saveRule uuid now p i c ls = Some (n, ls')
           \<and> getAllRules ls' =
               Some (map (\<lambda>rule. if id' rule = id' ex then ex\<lparr>is_active := False\<rparr> else rule) rules
                     @ [n])
           \<and> getVersionHistory ls' = Some h'"
proof -
  let ?rs = "map (\<lambda>rule. if id' rule = id' ex then ex\<lparr>is_active := False\<rparr> else rule) rules @ [n]"
  obtain e where "saveVersionHistory n (ls(STORAGE_KEY \<mapsto> stringify_rules ?rs))
      = Some (ls(STORAGE_KEY \<mapsto> stringify_rules ?rs, VERSION_KEY \<mapsto> JArr (h @ [e])))"
    using saveVersionHistory_typed [of "ls(STORAGE_KEY \<mapsto> stringify_rules ?rs)" h n]
      assms(2) by auto
  then show ?thesis
    using assms by (simp add: saveRule_def Let_def)
qed

lemma findIndex_None_iff: "findIndex p xs = None \<longleftrightarrow> (\<forall>x\<in>set xs. \<not> p x)"
  by (induction xs) auto

lemma findIndex_Some: "findIndex p xs = Some i \<Longrightarrow> i < length xs \<and> p (xs ! i)"
  by (induction xs arbitrary: i) (auto split: if_splits)

lemma deactivate_inactive: "\<not> is_active r \<Longrightarrow> r\<lparr>is_active := False\<rparr> = (r::AuditRule)"
  by (cases r) simp

lemma import_rule_ok_eq:
  "import_rule_ok e = (if e = JNull then Inl (NullRead ''id'') else Inr (has_required e))"
  by (simp add: import_rule_ok_def has_required_def)

lemma has_required_null: "\<not> has_required JNull"
  by (simp add: has_required_def get_def)

lemma every_import_valid: "list_all has_required elems \<Longrightarrow> every import_rule_ok elems = Inr True"
  by (induction elems) (auto simp: import_rule_ok_eq has_required_null)

lemma every_import_invalid:
  "\<not> list_all has_required elems \<Longrightarrow> every import_rule_ok elems \<noteq> Inr True"
  by (induction elems) (auto simp: import_rule_ok_eq has_required_null)

lemma importRules_invalid: "\<not> valid_payload payload \<Longrightarrow> importRules payload ls = (False, ls)"
proof (cases payload)
  case (Malformed m)
  then show ?thesis by (simp add: importRules_def importRules_try_def)
next
  case (JSON_text doc)
  assume nv: "\<not> valid_payload payload"
  show ?thesis
  proof (cases doc)
    case (JArr elems)
    with nv JSON_text have "every import_rule_ok elems \<noteq> Inr True"
      by (simp add: valid_payload_def every_import_invalid)
    with JArr JSON_text show ?thesis
      by (cases "every import_rule_ok elems")
         (auto simp: importRules_def importRules_try_def)
  qed (use JSON_text in \<open>simp_all add: importRules_def importRules_try_def\<close>)
qed

lemma importRules_valid:
  "list_all has_required elems \<Longrightarrow>
   importRules (JSON_text (JArr elems)) ls = (True, ls(STORAGE_KEY \<mapsto> JArr elems))"
  by (simp add: importRules_def importRules_try_def every_import_valid)

lemma filter_le1_unique:
  "length (filter P xs) \<le> 1 \<Longrightarrow> x \<in> set xs \<Longrightarrow> P x \<Longrightarrow> y \<in> set xs \<Longrightarrow> P y \<Longrightarrow> x = y"
  by (induction xs) (auto simp: filter_empty_conv split: if_splits)

lemma find_append_last: "\<forall>x\<in>set xs. \<not> P x \<Longrightarrow> P y \<Longrightarrow> find P (xs @ [y]) = Some y"
  by (induction xs) auto

lemma find_Some_mem: "find P xs = Some x \<Longrightarrow> x \<in> set xs \<and> P x"
  by (induction xs) (auto split: if_splits)

text \<open>The second of two saves, when the first one's rule is the active rule found.\<close>

lemma second_save:
  assumes g: "getAllRules ls1 = Some rules1" and h: "getVersionHistory ls1 = Some h1"
    and f: "find (\<lambda>rule. rule_type rule = rule_type p \<and> is_active rule
                        \<and> conditions rule = conditions p) rules1 = Some n1"
    and u: "id' n1 \<noteq> uuid2"
  shows "\<exists>n2 ls2 rules2. saveRule uuid2 now2 p i2 c2 ls1 = Some (n2, ls2)
      \<and> getAllRules ls2 = Some rules2 \<and> id' n2 = uuid2 \<and> version n2 = version n1 + 1
      \<and> is_active n2 \<and> n2 \<in> set rules2 \<and> n1\<lparr>is_active := False\<rparr> \<in> set rules2
      \<and> (\<forall>r\<in>set rules2. id' r = id' n1 \<longrightarrow> \<not> is_active r)"
proof -
  let ?n2 = "n1\<lparr>id' := uuid2, version := version n1 + 1, original_instruction := i2,
                 created_at := now2, created_by := c2, confidence_score := confidence_score p\<rparr>"
  let ?rs = "map (\<lambda>rule. if id' rule = id' n1 then n1\<lparr>is_active := False\<rparr> else rule) rules1 @ [?n2]"
  obtain ls2 h2 where s: "saveRule uuid2 now2 p i2 c2 ls1 = Some (?n2, ls2)"
    and g2: "getAllRules ls2 = Some ?rs"
    using saveRule_existing [OF g h f refl] by blast
  from f have m: "n1 \<in> set rules1" and a: "is_active n1"
    by (auto dest: find_Some_mem)
  have "n1\<lparr>is_active := False\<rparr> \<in> set ?rs"
    using m by (auto simp: image_iff intro!: bexI [of _ n1])
  moreover have "\<forall>r\<in>set ?rs. id' r = id' n1 \<longrightarrow> \<not> is_active r"
    using u by auto
  ultimately show ?thesis using s g2 a by auto
qed

lemma getAllRules_empty [simp]: "getAllRules Map.empty = Some []"
  by (simp add: getAllRules_def)

lemma getVersionHistory_empty [simp]: "getVersionHistory Map.empty = Some []"
  by (simp add: getVersionHistory_def)

subsection \<open>What every call keeps\<close>

lemma distinct_map_filter_nth:
  "distinct (map f (filter P xs)) \<longleftrightarrow>
     (\<forall>i<length xs. \<forall>j<length xs. P (xs ! i) \<and> P (xs ! j) \<and> f (xs ! i) = f (xs ! j) \<longrightarrow> i = j)"
proof (induction xs)
  case Nil
  show ?case by simp
next
  case (Cons x xs)
  show ?case
  proof
    assume L: "distinct (map f (filter P (x # xs)))"
    then have d: "distinct (map f (filter P xs))" by (simp split: if_splits)
    have nx: "P x \<Longrightarrow> k < length xs \<Longrightarrow> P (xs ! k) \<Longrightarrow> f (xs ! k) \<noteq> f x" for k
      using L by (auto simp: image_iff)
    show "\<forall>i<length (x # xs). \<forall>j<length (x # xs).
        P ((x # xs) ! i) \<and> P ((x # xs) ! j) \<and> f ((x # xs) ! i) = f ((x # xs) ! j) \<longrightarrow> i = j"
    proof (intro allI impI)
      fix i j
      assume i: "i < length (x # xs)" and j: "j < length (x # xs)"
        and c: "P ((x # xs) ! i) \<and> P ((x # xs) ! j) \<and> f ((x # xs) ! i) = f ((x # xs) ! j)"
      show "i = j"
      proof (cases i)
        case 0
        show ?thesis
        proof (cases j)
          case 0
          with \<open>i = 0\<close> show ?thesis by simp
        next
          case (Suc j')
          with 0 c j nx [of j'] show ?thesis by auto
        qed
      next
        case (Suc i')
        show ?thesis
        proof (cases j)
          case 0
          with Suc c i nx [of i'] show ?thesis by auto
        next
          case (Suc j')
          with \<open>i = Suc i'\<close> c i j d Cons.IH show ?thesis by auto
        qed
      qed
    qed
  next
    assume R: "\<forall>i<length (x # xs). \<forall>j<length (x # xs).
        P ((x # xs) ! i) \<and> P ((x # xs) ! j) \<and> f ((x # xs) ! i) = f ((x # xs) ! j) \<longrightarrow> i = j"
    have "\<forall>i<length xs. \<forall>j<length xs. P (xs ! i) \<and> P (xs ! j) \<and> f (xs ! i) = f (xs ! j) \<longrightarrow> i = j"
    proof (intro allI impI)
      fix i j
      assume "i < length xs" "j < length xs" "P (xs ! i) \<and> P (xs ! j) \<and> f (xs ! i) = f (xs ! j)"
      with R [rule_format, of "Suc i" "Suc j"] show "i = j" by simp
    qed
    with Cons.IH have d: "distinct (map f (filter P xs))" by simp
    have "f x \<notin> f ` {y \<in> set xs. P y}" if "P x"
    proof
      assume "f x \<in> f ` {y \<in> set xs. P y}"
      then obtain y where "y \<in> set xs" "P y" "f x = f y" by auto
      then obtain k where "k < length xs" "xs ! k = y" by (auto simp: in_set_conv_nth)
      with R [rule_format, of 0 "Suc k"] that \<open>P y\<close> \<open>f x = f y\<close> show False by simp
    qed
    with d show "distinct (map f (filter P (x # xs)))" by auto
  qed
qed

lemma one_active_nth:
  "one_active_per_lineage rules \<longleftrightarrow>
     (\<forall>i<length rules. \<forall>j<length rules.
        is_active (rules ! i) \<and> is_active (rules ! j) \<and> lineage (rules ! i) = lineage (rules ! j)
        \<longrightarrow> i = j)"
  unfolding one_active_per_lineage_def by (rule distinct_map_filter_nth)

text \<open>A list whose elements are those of another, some of them deactivated.\<close>

lemma one_active_deactivated:
  assumes "one_active_per_lineage rules" and "length rules' = length rules"
    and "\<forall>j<length rules. rules' ! j = rules ! j \<or> \<not> is_active (rules' ! j)"
  shows "one_active_per_lineage rules'"
  unfolding one_active_nth
proof (intro allI impI)
  fix i j
  assume i: "i < length rules'" and j: "j < length rules'"
    and c: "is_active (rules' ! i) \<and> is_active (rules' ! j) \<and> lineage (rules' ! i) = lineage (rules' ! j)"
  from assms(2,3) i j c have "rules' ! i = rules ! i" "rules' ! j = rules ! j" by auto
  with assms(1) assms(2) i j c show "i = j" unfolding one_active_nth by auto
qed

lemma one_active_snoc:
  assumes "one_active_per_lineage before"
    and "\<forall>r\<in>set before. is_active r \<longrightarrow> lineage r \<noteq> lineage n"
  shows "one_active_per_lineage (before @ [n])"
  using assms by (auto simp: one_active_per_lineage_def)

lemma one_active_filter:
  assumes "one_active_per_lineage rules"
  shows "length (filter (\<lambda>rule. rule_type rule = rule_type p \<and> is_active rule
                        \<and> conditions rule = conditions p) rules) \<le> 1"
proof -
  have "length (filter (\<lambda>r. is_active r \<and> lineage r = s) rules) \<le> 1" for s
    using assms unfolding one_active_per_lineage_def
  proof (induction rules)
    case Nil
    show ?case by simp
  next
    case (Cons r rs)
    from Cons.prems have d: "distinct (map lineage (filter is_active rs))"
      by (simp split: if_splits)
    show ?case
    proof (cases "is_active r \<and> lineage r = s")
      case True
      with Cons.prems have "\<forall>x\<in>set rs. \<not> (is_active x \<and> lineage x = s)"
        by (auto simp: image_iff)
      then have "filter (\<lambda>r. is_active r \<and> lineage r = s) rs = []"
        by (simp add: filter_empty_conv)
      with True show ?thesis by simp
    next
      case False
      with Cons.IH [OF d] show ?thesis by auto
    qed
  qed
  from this [of "lineage p"] show ?thesis
    by (simp add: lineage_def conj_commute conj_left_commute cong: conj_cong)
qed


lemma findIndex_first: "findIndex p xs = Some i \<Longrightarrow> \<forall>j<i. \<not> p (xs ! j)"
proof (induction xs arbitrary: i)
  case Nil
  then show ?case by simp
next
  case (Cons x xs)
  show ?case
  proof (cases "p x")
    case True
    with Cons.prems show ?thesis by simp
  next
    case False
    with Cons.prems obtain k where k: "findIndex p xs = Some k" "i = Suc k" by auto
    from Cons.IH [OF k(1)] False k(2) show ?thesis
      by (auto simp: nth_Cons' less_Suc_eq_0_disj)
  qed
qed

lemma findIndex_exists: "\<exists>x\<in>set xs. p x \<Longrightarrow> \<exists>i. findIndex p xs = Some i"
  using findIndex_None_iff [of p xs] by (cases "findIndex p xs") auto

text \<open>What a rollback that finds its target writes, rule by rule.\<close>

lemma rollback_target:
  assumes g: "getAllRules ls = Some rules"
    and f: "findIndex (\<lambda>rule. rule_type rule = t \<and> version rule = v) rules = Some k"
  shows "\<exists>rules'. rollbackToVersion t v ls
           = Some (Some (rules' ! k), ls(STORAGE_KEY \<mapsto> stringify_rules rules'))
      \<and> length rules' = length rules
      \<and> rules' ! k = (rules ! k)\<lparr>is_active := True\<rparr>
      \<and> (\<forall>j<length rules. j \<noteq> k \<and> rule_type (rules ! j) = t
            \<longrightarrow> rules' ! j = (rules ! j)\<lparr>is_active := False\<rparr>)
      \<and> (\<forall>j<length rules. rule_type (rules ! j) \<noteq> t \<longrightarrow> rules' ! j = rules ! j)"
proof -
  let ?d = "map (\<lambda>rule. if rule_type rule = t \<and> is_active rule
                             then rule\<lparr>is_active := False\<rparr> else rule) rules"
  let ?target = "(?d ! k)\<lparr>is_active := True\<rparr>"
  let ?rules' = "?d[k := ?target]"
  from f have k: "k < length rules" by (auto dest: findIndex_Some)
  have r: "rollbackToVersion t v ls
      = Some (Some ?target, ls(STORAGE_KEY \<mapsto> stringify_rules ?rules'))"
    using g f by (simp add: rollbackToVersion_def Let_def)
  have tk: "?rules' ! k = ?target" using k by simp
  have "?target = (rules ! k)\<lparr>is_active := True\<rparr>" using k by simp
  moreover have "\<forall>j<length rules. j \<noteq> k \<and> rule_type (rules ! j) = t
            \<longrightarrow> ?rules' ! j = (rules ! j)\<lparr>is_active := False\<rparr>"
  proof (intro allI impI)
    fix j assume j: "j < length rules" and c: "j \<noteq> k \<and> rule_type (rules ! j) = t"
    then have "?rules' ! j = ?d ! j" by simp
    also have "\<dots> = (rules ! j)\<lparr>is_active := False\<rparr>"
      using j c by (simp add: deactivate_inactive)
    finally show "?rules' ! j = (rules ! j)\<lparr>is_active := False\<rparr>" .
  qed
  moreover have "\<forall>j<length rules. rule_type (rules ! j) \<noteq> t \<longrightarrow> ?rules' ! j = rules ! j"
  proof (intro allI impI)
    fix j assume j: "j < length rules" and c: "rule_type (rules ! j) \<noteq> t"
    from f have "rule_type (rules ! k) = t" by (auto dest: findIndex_Some)
    with c have "j \<noteq> k" by auto
    then have "?rules' ! j = ?d ! j" by simp
    also have "\<dots> = rules ! j" using j c by simp
    finally show "?rules' ! j = rules ! j" .
  qed
  ultimately show ?thesis
    using r tk by (intro exI [of _ ?rules']) (simp only: length_list_update length_map simp_thms)
qed

lemma deactivate_shape:
  assumes g: "getAllRules ls = Some rules"
  shows "\<exists>b ls' rules'. deactivateRule i ls = Some (b, ls') \<and> getAllRules ls' = Some rules'
      \<and> getVersionHistory ls' = getVersionHistory ls \<and> length rules' = length rules
      \<and> (\<forall>j<length rules. rules' ! j = rules ! j \<or> rules' ! j = (rules ! j)\<lparr>is_active := False\<rparr>)"
proof (cases "findIndex (\<lambda>rule. id' rule = i) rules")
  case None
  with g show ?thesis by (auto simp: deactivateRule_def)
next
  case (Some k)
  let ?rules' = "rules[k := (rules ! k)\<lparr>is_active := False\<rparr>]"
  have "deactivateRule i ls = Some (True, ls(STORAGE_KEY \<mapsto> stringify_rules ?rules'))"
    using g Some by (simp add: deactivateRule_def)
  moreover have "\<forall>j<length rules. ?rules' ! j = rules ! j \<or> ?rules' ! j = (rules ! j)\<lparr>is_active := False\<rparr>"
  proof (intro allI impI)
    fix j assume "j < length rules"
    then show "?rules' ! j = rules ! j \<or> ?rules' ! j = (rules ! j)\<lparr>is_active := False\<rparr>"
      by (cases "j = k") simp_all
  qed
  ultimately show ?thesis
    by (intro exI [of _ True] exI [of _ "ls(STORAGE_KEY \<mapsto> stringify_rules ?rules')"]
          exI [of _ ?rules']) simp
qed

lemma counted_versions_kept:
  assumes "counted_versions rules" and "length rules \<le> length rules'"
    and "version ` set rules' \<subseteq> version ` set rules"
  shows "counted_versions rules'"
  unfolding counted_versions_def
proof
  fix r' assume "r' \<in> set rules'"
  with assms(3) obtain r where r: "r \<in> set rules" "version r' = version r" by auto
  with assms(1) have "version r \<in> \<int> \<and> 1 \<le> version r \<and> version r \<le> of_nat (length rules)"
    by (simp add: counted_versions_def)
  moreover have "(of_nat (length rules) :: rat) \<le> of_nat (length rules')"
    using assms(2) by simp
  ultimately show "version r' \<in> \<int> \<and> 1 \<le> version r'
      \<and> version r' \<le> of_nat (length rules')"
    unfolding r(2) by linarith
qed

lemma counted_versions_pointwise:
  assumes "counted_versions rules" and "length rules' = length rules"
    and "\<forall>j<length rules. version (rules' ! j) = version (rules ! j)"
  shows "counted_versions rules'"
proof (rule counted_versions_kept [OF assms(1)])
  show "length rules \<le> length rules'" using assms(2) by simp
  show "version ` set rules' \<subseteq> version ` set rules"
  proof
    fix x assume "x \<in> version ` set rules'"
    then obtain j where "j < length rules'" "x = version (rules' ! j)"
      by (auto simp: in_set_conv_nth)
    with assms(2,3) have "j < length rules" "x = version (rules ! j)" by simp_all
    then show "x \<in> version ` set rules"
      using nth_mem [of j rules] by blast
  qed
qed

lemma counted_versions_snoc:
  assumes "counted_versions rules" and "length before = length rules"
    and "version ` set before \<subseteq> version ` set rules"
    and "version n = 1 \<or> (\<exists>ex\<in>set rules. version n = version ex + 1)"
  shows "counted_versions (before @ [n])"
proof -
  have all: "\<forall>r\<in>set rules. version r \<in> \<int> \<and> 1 \<le> version r
      \<and> version r \<le> of_nat (length rules)"
    using assms(1) by (simp only: counted_versions_def)
  have n: "version n \<in> \<int> \<and> 1 \<le> version n \<and> version n \<le> of_nat (length rules) + 1"
    using assms(4)
  proof
    assume "version n = 1"
    then show ?thesis by simp
  next
    assume "\<exists>ex\<in>set rules. version n = version ex + 1"
    then obtain ex where ex: "ex \<in> set rules" "version n = version ex + 1" by blast
    with all have e: "version ex \<in> \<int>" "1 \<le> version ex"
      "version ex \<le> of_nat (length rules)" by blast+
    from e(1) have "version ex + 1 \<in> \<int>" by (intro Ints_add Ints_1)
    with e(2,3) show ?thesis unfolding ex(2) by linarith
  qed
  have "\<forall>r\<in>set (before @ [n]). version r \<in> \<int> \<and> 1 \<le> version r
      \<and> version r \<le> of_nat (length (before @ [n]))"
  proof
    fix r assume "r \<in> set (before @ [n])"
    then consider "r = n" | "r \<in> set before" by auto
    then show "version r \<in> \<int> \<and> 1 \<le> version r \<and> version r \<le> of_nat (length (before @ [n]))"
    proof cases
      case 1
      with n assms(2) show ?thesis by simp
    next
      case 2
      with assms(3) obtain r0 where "r0 \<in> set rules" "version r = version r0" by auto
      with all have "version r \<in> \<int> \<and> 1 \<le> version r \<and> version r \<le> of_nat (length rules)"
        by simp
      with assms(2) show ?thesis by simp
    qed
  qed
  then show ?thesis by (simp only: counted_versions_def)
qed

text \<open>One call keeps both properties of the stored list.\<close>

lemma save_reached:
  assumes g: "getAllRules ls = Some rules" and h: "getVersionHistory ls = Some h"
    and one: "one_active_per_lineage rules" and cnt: "counted_versions rules"
  shows "\<exists>n ls' rules' h'. saveRule uuid now p i c ls = Some (n, ls')
      \<and> getAllRules ls' = Some rules' \<and> getVersionHistory ls' = Some h'
      \<and> one_active_per_lineage rules' \<and> counted_versions rules'"
proof (cases "find (\<lambda>rule. rule_type rule = rule_type p \<and> is_active rule
                        \<and> conditions rule = conditions p) rules")
  case None
  let ?n = "\<lparr>rule_type = rule_type p, conditions = conditions p, action = action p,
              reason = reason p, confidence_score = confidence_score p, id' = uuid,
              version = 1, original_instruction = i, created_at = now, created_by = c,
              is_active = True\<rparr>"
  obtain ls' h' where s: "saveRule uuid now p i c ls = Some (?n, ls')"
      "getAllRules ls' = Some (rules @ [?n])" "getVersionHistory ls' = Some h'"
    using saveRule_new [OF g h None refl] by blast
  have "\<forall>r\<in>set rules. is_active r \<longrightarrow> lineage r \<noteq> lineage ?n"
    using None by (auto simp: find_None_iff lineage_def)
  with one have "one_active_per_lineage (rules @ [?n])" by (rule one_active_snoc)
  moreover have "counted_versions (rules @ [?n])"
    using cnt by (rule counted_versions_snoc) simp_all
  ultimately show ?thesis using s
    by (intro exI [of _ ?n] exI [of _ ls'] exI [of _ "rules @ [?n]"] exI [of _ h']) simp
next
  case (Some ex)
  then have ex: "ex \<in> set rules" "is_active ex" "lineage ex = lineage p"
    by (auto dest: find_Some_mem simp: lineage_def)
  let ?n = "ex\<lparr>id' := uuid, version := version ex + 1, original_instruction := i,
                 created_at := now, created_by := c, confidence_score := confidence_score p\<rparr>"
  let ?m = "map (\<lambda>rule. if id' rule = id' ex then ex\<lparr>is_active := False\<rparr> else rule) rules"
  obtain ls' h' where s: "saveRule uuid now p i c ls = Some (?n, ls')"
      "getAllRules ls' = Some (?m @ [?n])" "getVersionHistory ls' = Some h'"
    using saveRule_existing [OF g h Some refl] by blast
  have m1: "one_active_per_lineage ?m"
    using one by (rule one_active_deactivated) auto
  obtain e where e: "e < length rules" "rules ! e = ex"
    using ex(1) by (auto simp: in_set_conv_nth)
  have "\<forall>r\<in>set ?m. is_active r \<longrightarrow> lineage r \<noteq> lineage ?n"
  proof (intro ballI impI)
    fix r assume "r \<in> set ?m" and a: "is_active r"
    then obtain j where j: "j < length rules" "r = ?m ! j"
      by (auto simp: in_set_conv_nth)
    with a have u: "id' (rules ! j) \<noteq> id' ex" "r = rules ! j"
      by (auto split: if_splits)
    show "lineage r \<noteq> lineage ?n"
    proof
      assume "lineage r = lineage ?n"
      then have "lineage (rules ! j) = lineage (rules ! e)"
        using u(2) e(2) by (simp add: lineage_def)
      with one j(1) e a u(2) ex(2) have "j = e"
        unfolding one_active_nth by auto
      with u(1) e(2) show False by simp
    qed
  qed
  with m1 have "one_active_per_lineage (?m @ [?n])" by (rule one_active_snoc)
  moreover have "counted_versions (?m @ [?n])"
    using cnt
  proof (rule counted_versions_snoc)
    show "length ?m = length rules" by simp
    show "version ` set ?m \<subseteq> version ` set rules" using ex(1) by auto
    show "version ?n = 1 \<or> (\<exists>x\<in>set rules. version ?n = version x + 1)"
      using ex(1) by auto
  qed
  ultimately show ?thesis using s
    by (intro exI [of _ ?n] exI [of _ ls'] exI [of _ "?m @ [?n]"] exI [of _ h']) simp
qed

lemma rollback_reached:
  assumes g: "getAllRules ls = Some rules"
    and one: "one_active_per_lineage rules" and cnt: "counted_versions rules"
  shows "\<exists>res ls' rules'. rollbackToVersion t v ls = Some (res, ls')
      \<and> getAllRules ls' = Some rules' \<and> getVersionHistory ls' = getVersionHistory ls
      \<and> one_active_per_lineage rules' \<and> counted_versions rules'"
proof (cases "findIndex (\<lambda>rule. rule_type rule = t \<and> version rule = v) rules")
  case None
  with g one cnt show ?thesis by (simp add: rollbackToVersion_def)
next
  case (Some k)
  then have k: "k < length rules" "rule_type (rules ! k) = t"
    by (auto dest: findIndex_Some)
  from rollback_target [OF g Some] obtain rules' where
    r: "rollbackToVersion t v ls = Some (Some (rules' ! k), ls(STORAGE_KEY \<mapsto> stringify_rules rules'))"
    and len: "length rules' = length rules"
    and tk: "rules' ! k = (rules ! k)\<lparr>is_active := True\<rparr>"
    and same: "\<forall>j<length rules. j \<noteq> k \<and> rule_type (rules ! j) = t
            \<longrightarrow> rules' ! j = (rules ! j)\<lparr>is_active := False\<rparr>"
    and other: "\<forall>j<length rules. rule_type (rules ! j) \<noteq> t \<longrightarrow> rules' ! j = rules ! j"
    by (elim exE conjE)
  have act: "j < length rules \<Longrightarrow> j \<noteq> k \<Longrightarrow> is_active (rules' ! j)
      \<Longrightarrow> rule_type (rules ! j) \<noteq> t \<and> rules' ! j = rules ! j" for j
    using same other by (cases "rule_type (rules ! j) = t") auto
  have "one_active_per_lineage rules'"
    unfolding one_active_nth
  proof (intro allI impI)
    fix i j
    assume i: "i < length rules'" and j: "j < length rules'"
      and c: "is_active (rules' ! i) \<and> is_active (rules' ! j)
              \<and> lineage (rules' ! i) = lineage (rules' ! j)"
    have tt: "rule_type (rules' ! k) = t" using tk k(2) by simp
    show "i = j"
    proof (cases "i = k")
      case True
      show ?thesis
      proof (rule ccontr)
        assume "i \<noteq> j"
        with True act [of j] j len c have "rule_type (rules' ! j) \<noteq> t" by auto
        with True c tt show False by (simp add: lineage_def)
      qed
    next
      case False
      with act [of i] i len c have ai: "rule_type (rules ! i) \<noteq> t" "rules' ! i = rules ! i"
        by auto
      show ?thesis
      proof (cases "j = k")
        case True
        with c tt ai show ?thesis by (simp add: lineage_def)
      next
        case False
        with act [of j] j len c have "rules' ! j = rules ! j" by auto
        with ai c i j len one show ?thesis unfolding one_active_nth by auto
      qed
    qed
  qed
  moreover have "counted_versions rules'"
    using cnt len
  proof (rule counted_versions_pointwise)
    show "\<forall>j<length rules. version (rules' ! j) = version (rules ! j)"
    proof (intro allI impI)
      fix j assume j: "j < length rules"
      show "version (rules' ! j) = version (rules ! j)"
      proof (cases "j = k")
        case True
        with tk show ?thesis by simp
      next
        case False
        with same other j show ?thesis
          by (cases "rule_type (rules ! j) = t") auto
      qed
    qed
  qed
  ultimately show ?thesis using r by simp
qed

lemma deactivate_reached:
  assumes g: "getAllRules ls = Some rules"
    and one: "one_active_per_lineage rules" and cnt: "counted_versions rules"
  shows "\<exists>b ls' rules'. deactivateRule i ls = Some (b, ls')
      \<and> getAllRules ls' = Some rules' \<and> getVersionHistory ls' = getVersionHistory ls
      \<and> one_active_per_lineage rules' \<and> counted_versions rules'"
proof -
  from deactivate_shape [OF g, of i] obtain b ls' rules' where
    d: "deactivateRule i ls = Some (b, ls')" "getAllRules ls' = Some rules'"
      "getVersionHistory ls' = getVersionHistory ls"
    and len: "length rules' = length rules"
    and pw: "\<forall>j<length rules. rules' ! j = rules ! j \<or> rules' ! j = (rules ! j)\<lparr>is_active := False\<rparr>"
    by (elim exE conjE)
  have "one_active_per_lineage rules'"
    using one len
  proof (rule one_active_deactivated)
    show "\<forall>j<length rules. rules' ! j = rules ! j \<or> \<not> is_active (rules' ! j)"
      using pw by auto
  qed
  moreover have "counted_versions rules'"
    using cnt len
  proof (rule counted_versions_pointwise)
    show "\<forall>j<length rules. version (rules' ! j) = version (rules ! j)"
      using pw by auto
  qed
  ultimately show ?thesis using d
    by (intro exI [of _ b] exI [of _ ls'] exI [of _ rules']) simp
qed

lemma run_reached:
  assumes "getAllRules ls = Some rules" and "getVersionHistory ls = Some h"
    and "one_active_per_lineage rules" and "counted_versions rules"
  shows "\<exists>ls' rules' h'. run_ops ops ls = Some ls' \<and> getAllRules ls' = Some rules'
      \<and> getVersionHistory ls' = Some h'
      \<and> one_active_per_lineage rules' \<and> counted_versions rules'"
  using assms
proof (induction ops arbitrary: ls rules h)
  case Nil
  then show ?case by simp
next
  case (Cons op ops)
  have "\<exists>ls1 rules1 h1. apply_op op ls = Some ls1 \<and> getAllRules ls1 = Some rules1
      \<and> getVersionHistory ls1 = Some h1
      \<and> one_active_per_lineage rules1 \<and> counted_versions rules1"
  proof (cases op)
    case (Save uuid now p i c)
    from save_reached [OF Cons.prems, of uuid now p i c] Save show ?thesis by auto
  next
    case (Rollback t v)
    from rollback_reached [OF Cons.prems(1) Cons.prems(3) Cons.prems(4), of t v]
      Rollback Cons.prems(2) show ?thesis by auto
  next
    case (Deactivate i)
    from deactivate_reached [OF Cons.prems(1) Cons.prems(3) Cons.prems(4), of i]
      Deactivate Cons.prems(2) show ?thesis by auto
  qed
  then obtain ls1 rules1 h1 where a: "apply_op op ls = Some ls1"
    and b: "getAllRules ls1 = Some rules1" "getVersionHistory ls1 = Some h1"
      "one_active_per_lineage rules1" "counted_versions rules1"
    by (elim exE conjE)
  from Cons.IH [OF b] a show ?case by simp
qed

lemma exact_successors_counted:
  assumes "counted_versions rules" and "length rules + 2 \<le> 2 ^ 53" and "r \<in> set rules"
  shows "exact_successors (version r)"
proof -
  from assms(1,3) have v: "version r \<in> \<int>" "1 \<le> version r"
    "version r \<le> of_nat (length rules)"
    by (simp_all add: counted_versions_def)
  have "(of_nat (length rules + 2) :: rat) \<le> of_nat (2 ^ 53)"
    using assms(2) by (simp only: of_nat_le_iff)
  then have "(of_nat (length rules) :: rat) + 2 \<le> 2 ^ 53" by simp
  with v show ?thesis by (simp add: exact_successors_def)
qed

lemma one_active_Nil: "one_active_per_lineage []"
  by (simp add: one_active_per_lineage_def)

lemma counted_versions_Nil: "counted_versions []"
  by (simp add: counted_versions_def)

subsection \<open>Rollback, import and two saves\<close>

text \<open>
  Claim C8. For every store state, rule type and version \<open>v\<close> such that no stored rule
  has that rule type and that version, \<open>rollbackToVersion\<close> returns \<^verbatim>\<open>null\<close> and leaves
  the storage as it was: every rule, the active rules of that rule type among them, is
  unchanged.
\<close>

theorem rollback_missing_version_noop:
  assumes "getAllRules ls = Some rules"
    and "\<forall>r\<in>set rules. \<not> (rule_type r = ruleType \<and> version r = v)"
  shows "rollbackToVersion ruleType v ls = Some (None, ls)"
  using assms by (simp add: rollbackToVersion_def findIndex_None_iff [THEN iffD2])

text \<open>A store with version 1 of a rule, rolled back to version 2.\<close>

theorem rollback_missing_version_noop_witness:
  "rollbackToVersion ''expense_amount_threshold'' 2
     [STORAGE_KEY \<mapsto> stringify_rules [amount_rule ''a1'' ''expense_amount_threshold'' 1000 1 True]]
   = Some (None,
       [STORAGE_KEY \<mapsto> stringify_rules [amount_rule ''a1'' ''expense_amount_threshold'' 1000 1 True]])"
  by (rule rollback_missing_version_noop
        [where rules = "[amount_rule ''a1'' ''expense_amount_threshold'' 1000 1 True]"])
     (simp_all add: amount_rule_def)

text \<open>
  Claim C10. For every store state and every rule type and version that some stored rule
  has, \<open>rollbackToVersion\<close> succeeds. Its target is the first stored rule with that rule
  type and version; the target is returned and stored active. Every other stored rule of
  the rule type is stored inactive, whatever its conditions: the rules of the target's
  own lineage and, in particular, an active rule of the rule type whose conditions
  differ from the target's (another lineage). The rules of other rule types are
  unchanged, and nothing but the list of rules is written.
\<close>

theorem rollback_deactivates_by_rule_type:
  assumes g: "getAllRules ls = Some rules"
    and ex: "\<exists>r\<in>set rules. rule_type r = ruleType \<and> version r = v"
  shows "\<exists>k rules'.
      k < length rules \<and> rule_type (rules ! k) = ruleType \<and> version (rules ! k) = v
      \<and> (\<forall>j<k. \<not> (rule_type (rules ! j) = ruleType \<and> version (rules ! j) = v))
      \<and> rollbackToVersion ruleType v ls
          = Some (Some (rules' ! k), ls(STORAGE_KEY \<mapsto> stringify_rules rules'))
      \<and> getAllRules (ls(STORAGE_KEY \<mapsto> stringify_rules rules')) = Some rules'
      \<and> length rules' = length rules
      \<and> rules' ! k = (rules ! k)\<lparr>is_active := True\<rparr>
      \<and> (\<forall>j<length rules. j \<noteq> k \<and> rule_type (rules ! j) = ruleType
            \<longrightarrow> rules' ! j = (rules ! j)\<lparr>is_active := False\<rparr>)
      \<and> (\<forall>j<length rules. rule_type (rules ! j) \<noteq> ruleType \<longrightarrow> rules' ! j = rules ! j)
      \<and> (\<forall>j<length rules. rule_type (rules ! j) = ruleType
                           \<and> conditions (rules ! j) \<noteq> conditions (rules ! k)
            \<longrightarrow> \<not> is_active (rules' ! j))"
proof -
  from ex obtain k where
    f: "findIndex (\<lambda>rule. rule_type rule = ruleType \<and> version rule = v) rules = Some k"
    using findIndex_exists [of rules "\<lambda>rule. rule_type rule = ruleType \<and> version rule = v"]
    by blast
  then have k: "k < length rules" "rule_type (rules ! k) = ruleType" "version (rules ! k) = v"
    by (auto dest: findIndex_Some)
  from f have first: "\<forall>j<k. \<not> (rule_type (rules ! j) = ruleType \<and> version (rules ! j) = v)"
    by (rule findIndex_first)
  from rollback_target [OF g f] obtain rules' where
    r: "rollbackToVersion ruleType v ls
          = Some (Some (rules' ! k), ls(STORAGE_KEY \<mapsto> stringify_rules rules'))"
    and len: "length rules' = length rules"
    and tk: "rules' ! k = (rules ! k)\<lparr>is_active := True\<rparr>"
    and same: "\<forall>j<length rules. j \<noteq> k \<and> rule_type (rules ! j) = ruleType
            \<longrightarrow> rules' ! j = (rules ! j)\<lparr>is_active := False\<rparr>"
    and other: "\<forall>j<length rules. rule_type (rules ! j) \<noteq> ruleType \<longrightarrow> rules' ! j = rules ! j"
    by (elim exE conjE)
  have "\<forall>j<length rules. rule_type (rules ! j) = ruleType
                           \<and> conditions (rules ! j) \<noteq> conditions (rules ! k)
            \<longrightarrow> \<not> is_active (rules' ! j)"
  proof (intro allI impI)
    fix j
    assume j: "j < length rules"
      and c: "rule_type (rules ! j) = ruleType \<and> conditions (rules ! j) \<noteq> conditions (rules ! k)"
    then have "j \<noteq> k" by auto
    with same j c have "rules' ! j = (rules ! j)\<lparr>is_active := False\<rparr>" by simp
    then show "\<not> is_active (rules' ! j)" by simp
  qed
  moreover have "getAllRules (ls(STORAGE_KEY \<mapsto> stringify_rules rules')) = Some rules'"
    by simp
  ultimately show ?thesis
    using k first r len tk same other by (intro exI [of _ k] exI [of _ rules'] conjI)
qed

text \<open>
  Two lineages of one rule type, each with an active rule, and a rule of another rule
  type; the rollback to version 1 of the first lineage deactivates the active rule of
  that lineage and the active rule of the second, and leaves the third rule alone.
\<close>

theorem rollback_deactivates_by_rule_type_witness:
  "rollbackToVersion ''expense_amount_threshold'' 1
     [STORAGE_KEY \<mapsto> stringify_rules
        [amount_rule ''a1'' ''expense_amount_threshold'' 1000 1 False,
         amount_rule ''a2'' ''expense_amount_threshold'' 1000 2 True,
         amount_rule ''b1'' ''expense_amount_threshold'' 5000 1 True,
         amount_rule ''c1'' ''time_based'' 22 1 True]]
   = Some (Some (amount_rule ''a1'' ''expense_amount_threshold'' 1000 1 True),
       [STORAGE_KEY \<mapsto> stringify_rules
        [amount_rule ''a1'' ''expense_amount_threshold'' 1000 1 True,
         amount_rule ''a2'' ''expense_amount_threshold'' 1000 2 False,
         amount_rule ''b1'' ''expense_amount_threshold'' 5000 1 False,
         amount_rule ''c1'' ''time_based'' 22 1 True]])"
proof -
  let ?rules = "[amount_rule ''a1'' ''expense_amount_threshold'' 1000 1 False,
         amount_rule ''a2'' ''expense_amount_threshold'' 1000 2 True,
         amount_rule ''b1'' ''expense_amount_threshold'' 5000 1 True,
         amount_rule ''c1'' ''time_based'' 22 1 True]"
  let ?ls = "[STORAGE_KEY \<mapsto> stringify_rules ?rules]"
  have g: "getAllRules ?ls = Some ?rules" by simp
  have ex: "\<exists>r\<in>set ?rules. rule_type r = ''expense_amount_threshold'' \<and> version r = 1"
    by (simp add: amount_rule_def)
  from rollback_deactivates_by_rule_type [OF g ex] obtain k rules' where
    first: "\<forall>j<k. \<not> (rule_type (?rules ! j) = ''expense_amount_threshold'' \<and> version (?rules ! j) = 1)"
    and r: "rollbackToVersion ''expense_amount_threshold'' 1 ?ls
          = Some (Some (rules' ! k), ?ls(STORAGE_KEY \<mapsto> stringify_rules rules'))"
    and len: "length rules' = length ?rules"
    and tk: "rules' ! k = (?rules ! k)\<lparr>is_active := True\<rparr>"
    and same: "\<forall>j<length ?rules. j \<noteq> k \<and> rule_type (?rules ! j) = ''expense_amount_threshold''
            \<longrightarrow> rules' ! j = (?rules ! j)\<lparr>is_active := False\<rparr>"
    and other: "\<forall>j<length ?rules. rule_type (?rules ! j) \<noteq> ''expense_amount_threshold''
            \<longrightarrow> rules' ! j = ?rules ! j"
    by (elim exE conjE)
  have k: "k = 0"
  proof (rule ccontr)
    assume "k \<noteq> 0"
    then have "0 < k" by simp
    with first have "\<not> (rule_type (?rules ! 0) = ''expense_amount_threshold'' \<and> version (?rules ! 0) = 1)"
      by blast
    then show False by (simp add: amount_rule_def)
  qed
  have r0: "rules' ! 0 = amount_rule ''a1'' ''expense_amount_threshold'' 1000 1 True"
    using tk k by (simp add: amount_rule_def)
  have r1: "rules' ! 1 = amount_rule ''a2'' ''expense_amount_threshold'' 1000 2 False"
    using same [rule_format, of 1] k by (simp add: amount_rule_def)
  have r2: "rules' ! 2 = amount_rule ''b1'' ''expense_amount_threshold'' 5000 1 False"
    using same [rule_format, of 2] k by (simp add: amount_rule_def)
  have r3: "rules' ! 3 = amount_rule ''c1'' ''time_based'' 22 1 True"
    using other [rule_format, of 3] by (simp add: amount_rule_def)
  have "rules' = [rules' ! 0, rules' ! 1, rules' ! 2, rules' ! 3]"
    using len by (intro nth_equalityI) (auto simp: nth_Cons' less_Suc_eq numeral_eq_Suc)
  with r0 r1 r2 r3 have "rules' = [amount_rule ''a1'' ''expense_amount_threshold'' 1000 1 True,
         amount_rule ''a2'' ''expense_amount_threshold'' 1000 2 False,
         amount_rule ''b1'' ''expense_amount_threshold'' 5000 1 False,
         amount_rule ''c1'' ''time_based'' 22 1 True]"
    by simp
  with r r0 k show ?thesis by simp
qed

text \<open>
  Claim C6, as amended. \<open>importRules\<close> returns \<^verbatim>\<open>false\<close> and writes nothing when the
  payload is not valid: it is no JSON text, or not an array, or some element is
  \<^verbatim>\<open>null\<close> or lacks a truthy \<^verbatim>\<open>id\<close>, \<^verbatim>\<open>rule_type\<close>, \<^verbatim>\<open>conditions\<close> or
  \<^verbatim>\<open>action\<close> (absent, \<^verbatim>\<open>null\<close>, \<^verbatim>\<open>false\<close>, \<open>0\<close> or the empty string; an empty
  \<^verbatim>\<open>conditions\<close> array is truthy and passes) or has no \<^verbatim>\<open>version\<close>. On a valid
  payload it returns \<^verbatim>\<open>true\<close> and replaces the stored rules by the payload.
\<close>

theorem importRules_all_or_nothing:
  "(\<not> valid_payload payload \<longrightarrow> importRules payload ls = (False, ls))
   \<and> (\<forall>elems e. payload = JSON_text (JArr elems) \<and> e \<in> set elems \<and> \<not> has_required e
         \<longrightarrow> importRules payload ls = (False, ls))
   \<and> (\<forall>elems. payload = JSON_text (JArr elems) \<and> list_all has_required elems
         \<longrightarrow> importRules payload ls = (True, ls(STORAGE_KEY \<mapsto> JArr elems)))"
proof (intro conjI allI impI)
  show "importRules payload ls = (False, ls)" if "\<not> valid_payload payload"
    using that by (rule importRules_invalid)
  show "importRules payload ls = (False, ls)"
    if "payload = JSON_text (JArr elems) \<and> e \<in> set elems \<and> \<not> has_required e" for elems e
  proof -
    from that have "\<not> valid_payload payload"
      by (auto simp: valid_payload_def list_all_iff)
    then show ?thesis by (rule importRules_invalid)
  qed
  show "importRules payload ls = (True, ls(STORAGE_KEY \<mapsto> JArr elems))"
    if "payload = JSON_text (JArr elems) \<and> list_all has_required elems" for elems
    using that by (simp add: importRules_valid)
qed

text \<open>A payload whose second element has no \<^verbatim>\<open>action\<close>, and a valid payload, on a
  store that holds a rule.\<close>

theorem importRules_all_or_nothing_witness:
  "importRules
     (JSON_text (JArr [JSON_of_AuditRule (amount_rule ''b1'' ''time_based'' 22 1 True),
                       JObj [(''id'', JStr ''b2''), (''version'', JNum 1),
                             (''rule_type'', JStr ''time_based''), (''conditions'', JArr [])]]))
     [STORAGE_KEY \<mapsto> stringify_rules [amount_rule ''a1'' ''expense_amount_threshold'' 1000 1 True]]
   = (False,
      [STORAGE_KEY \<mapsto> stringify_rules [amount_rule ''a1'' ''expense_amount_threshold'' 1000 1 True]])
   \<and> importRules
     (JSON_text (JArr [JSON_of_AuditRule (amount_rule ''b1'' ''time_based'' 22 1 True)]))
     [STORAGE_KEY \<mapsto> stringify_rules [amount_rule ''a1'' ''expense_amount_threshold'' 1000 1 True]]
   = (True,
      [STORAGE_KEY \<mapsto> JArr [JSON_of_AuditRule (amount_rule ''b1'' ''time_based'' 22 1 True)]])"
proof -
  let ?ls = "[STORAGE_KEY \<mapsto> stringify_rules [amount_rule ''a1'' ''expense_amount_threshold'' 1000 1 True]]"
  let ?good = "JSON_of_AuditRule (amount_rule ''b1'' ''time_based'' 22 1 True)"
  let ?bad = "JObj [(''id'', JStr ''b2''), (''version'', JNum 1),
                             (''rule_type'', JStr ''time_based''), (''conditions'', JArr [])]"
  have bad: "\<not> has_required ?bad"
    by (simp add: has_required_def get_def)
  have good: "has_required ?good"
    by (simp add: has_required_def get_def JSON_of_AuditRule_def amount_rule_def)
  from importRules_all_or_nothing [of "JSON_text (JArr [?good, ?bad])" ?ls] bad
  have a: "importRules (JSON_text (JArr [?good, ?bad])) ?ls = (False, ?ls)"
    by (simp add: valid_payload_def)
  from importRules_all_or_nothing [of "JSON_text (JArr [?good])" ?ls] good
  have "importRules (JSON_text (JArr [?good])) ?ls = (True, ?ls(STORAGE_KEY \<mapsto> JArr [?good]))"
    by simp
  with a show ?thesis by simp
qed

text \<open>
  Claim C6 as stated fails: an element whose \<^verbatim>\<open>conditions\<close> are the empty sequence has
  no non-empty conditions, and the import succeeds and replaces the store.
\<close>

theorem import_empty_conditions_counterexample:
  "get (JObj [(''id'', JStr ''b1''), (''version'', JNum 1), (''rule_type'', JStr ''duplicate_detection''),
              (''conditions'', JArr []), (''action'', JStr ''flag'')]) ''conditions'' = Some (JArr [])
   \<and> importRules
       (JSON_text (JArr [JObj [(''id'', JStr ''b1''), (''version'', JNum 1),
                               (''rule_type'', JStr ''duplicate_detection''),
                               (''conditions'', JArr []), (''action'', JStr ''flag'')]]))
       [STORAGE_KEY \<mapsto> stringify_rules [amount_rule ''a1'' ''expense_amount_threshold'' 1000 1 True]]
     = (True,
        [STORAGE_KEY \<mapsto> JArr [JObj [(''id'', JStr ''b1''), (''version'', JNum 1),
                               (''rule_type'', JStr ''duplicate_detection''),
                               (''conditions'', JArr []), (''action'', JStr ''flag'')]]])"
proof -
  have "has_required (JObj [(''id'', JStr ''b1''), (''version'', JNum 1),
            (''rule_type'', JStr ''duplicate_detection''),
            (''conditions'', JArr []), (''action'', JStr ''flag'')])"
    by (simp add: has_required_def get_def)
  then show ?thesis
    by (simp add: importRules_valid get_def)
qed

text \<open>
  Claim C5, as amended. Every store state reached from the empty store by saves,
  rollbacks and deactivations holds at most one active rule for each signature, and its
  versions are integers between 1 and the number of stored rules. For every parsed rule
  and every store state that holds at most one active rule with the rule's signature,
  whose version is an integer \<open>v\<close> with \<open>\<bar>v\<bar> + 2 \<le> 2^53\<close>, two saves with the same rule type
  and conditions, given two different identifiers, produce two entries with these
  identifiers; the second entry's version is the first's plus one, both versions being
  integers of magnitude at most \<open>2^53\<close> (which the code's numbers hold exactly); and after
  the second save the second entry is active and every entry with the first identifier
  is inactive.
\<close>

theorem save_twice_versions:
  "(\<forall>ops. \<exists>ls rules h. run_ops ops Map.empty = Some ls \<and> getAllRules ls = Some rules
        \<and> getVersionHistory ls = Some h
        \<and> (\<forall>p::ParsedRule. length (filter (\<lambda>rule. rule_type rule = rule_type p \<and> is_active rule
                                       \<and> conditions rule = conditions p) rules) \<le> 1)
        \<and> (\<forall>r\<in>set rules. version r \<in> \<int> \<and> 1 \<le> version r \<and> version r \<le> of_nat (length rules))
        \<and> (length rules + 2 \<le> 2 ^ 53 \<longrightarrow> (\<forall>r\<in>set rules. exact_successors (version r))))
   \<and> (\<forall>ls rules h.
        getAllRules ls = Some rules \<and> getVersionHistory ls = Some h
        \<and> length (filter (\<lambda>rule. rule_type rule = rule_type p1 \<and> is_active rule
                                  \<and> conditions rule = conditions p1) rules) \<le> 1
        \<and> (\<forall>r\<in>set rules. rule_type r = rule_type p1 \<and> is_active r \<and> conditions r = conditions p1
              \<longrightarrow> exact_successors (version r))
        \<and> rule_type p2 = rule_type p1 \<and> conditions p2 = conditions p1 \<and> uuid1 \<noteq> uuid2
      \<longrightarrow> (\<exists>n1 ls1 n2 ls2 rules2.
            saveRule uuid1 now1 p1 i1 c1 ls = Some (n1, ls1)
            \<and> saveRule uuid2 now2 p2 i2 c2 ls1 = Some (n2, ls2)
            \<and> getAllRules ls2 = Some rules2
            \<and> id' n1 = uuid1 \<and> id' n2 = uuid2 \<and> version n2 = version n1 + 1
            \<and> version n1 \<in> \<int> \<and> \<bar>version n1\<bar> \<le> 2 ^ 53 \<and> \<bar>version n2\<bar> \<le> 2 ^ 53
            \<and> is_active n2 \<and> n2 \<in> set rules2 \<and> n1\<lparr>is_active := False\<rparr> \<in> set rules2
            \<and> (\<forall>r\<in>set rules2. id' r = uuid1 \<longrightarrow> \<not> is_active r)))"
proof (intro conjI allI impI)
  fix ops
  from run_reached [OF getAllRules_empty getVersionHistory_empty one_active_Nil
      counted_versions_Nil, of ops]
  obtain ls rules h where r: "run_ops ops Map.empty = Some ls" "getAllRules ls = Some rules"
      "getVersionHistory ls = Some h"
    and one: "one_active_per_lineage rules" and cnt: "counted_versions rules"
    by (elim exE conjE)
  have "\<forall>p::ParsedRule. length (filter (\<lambda>rule. rule_type rule = rule_type p \<and> is_active rule
                                       \<and> conditions rule = conditions p) rules) \<le> 1"
    using one_active_filter [OF one] by blast
  moreover have "\<forall>r\<in>set rules. version r \<in> \<int> \<and> 1 \<le> version r \<and> version r \<le> of_nat (length rules)"
    using cnt by (simp only: counted_versions_def)
  moreover have "length rules + 2 \<le> 2 ^ 53 \<longrightarrow> (\<forall>r\<in>set rules. exact_successors (version r))"
    using exact_successors_counted [OF cnt] by blast
  ultimately show "\<exists>ls rules h. run_ops ops Map.empty = Some ls \<and> getAllRules ls = Some rules
        \<and> getVersionHistory ls = Some h
        \<and> (\<forall>p::ParsedRule. length (filter (\<lambda>rule. rule_type rule = rule_type p \<and> is_active rule
                                       \<and> conditions rule = conditions p) rules) \<le> 1)
        \<and> (\<forall>r\<in>set rules. version r \<in> \<int> \<and> 1 \<le> version r \<and> version r \<le> of_nat (length rules))
        \<and> (length rules + 2 \<le> 2 ^ 53 \<longrightarrow> (\<forall>r\<in>set rules. exact_successors (version r)))"
    using r by (intro exI [of _ ls] exI [of _ rules] exI [of _ h] conjI)
next
  fix ls rules h
  let ?P = "\<lambda>rule. rule_type rule = rule_type p1 \<and> is_active rule \<and> conditions rule = conditions p1"
  assume a: "getAllRules ls = Some rules \<and> getVersionHistory ls = Some h
        \<and> length (filter ?P rules) \<le> 1
        \<and> (\<forall>r\<in>set rules. rule_type r = rule_type p1 \<and> is_active r \<and> conditions r = conditions p1
              \<longrightarrow> exact_successors (version r))
        \<and> rule_type p2 = rule_type p1 \<and> conditions p2 = conditions p1 \<and> uuid1 \<noteq> uuid2"
  then have g: "getAllRules ls = Some rules" and h: "getVersionHistory ls = Some h"
    and one: "length (filter ?P rules) \<le> 1"
    and ok: "\<forall>r\<in>set rules. ?P r \<longrightarrow> exact_successors (version r)"
    and same: "rule_type p2 = rule_type p1" "conditions p2 = conditions p1"
    and u: "uuid1 \<noteq> uuid2"
    by blast+
  have P2: "(\<lambda>rule. rule_type rule = rule_type p2 \<and> is_active rule \<and> conditions rule = conditions p2) = ?P"
    using same by simp
  have "\<exists>n1 ls1 rules1 h1. saveRule uuid1 now1 p1 i1 c1 ls = Some (n1, ls1)
      \<and> getAllRules ls1 = Some rules1 \<and> getVersionHistory ls1 = Some h1
      \<and> find ?P rules1 = Some n1 \<and> id' n1 = uuid1
      \<and> version n1 \<in> \<int> \<and> \<bar>version n1\<bar> + 1 \<le> 2 ^ 53"
  proof (cases "find ?P rules")
    case None
    let ?n = "\<lparr>rule_type = rule_type p1, conditions = conditions p1, action = action p1,
              reason = reason p1, confidence_score = confidence_score p1, id' = uuid1,
              version = 1, original_instruction = i1, created_at = now1, created_by = c1,
              is_active = True\<rparr>"
    obtain ls1 h1 where "saveRule uuid1 now1 p1 i1 c1 ls = Some (?n, ls1)"
      "getAllRules ls1 = Some (rules @ [?n])" "getVersionHistory ls1 = Some h1"
      using saveRule_new [OF g h None refl] by blast
    moreover have "find ?P (rules @ [?n]) = Some ?n"
      using None by (intro find_append_last) (auto simp: find_None_iff)
    ultimately show ?thesis by auto
  next
    case (Some ex)
    let ?n = "ex\<lparr>id' := uuid1, version := version ex + 1, original_instruction := i1,
                 created_at := now1, created_by := c1, confidence_score := confidence_score p1\<rparr>"
    let ?m = "map (\<lambda>rule. if id' rule = id' ex then ex\<lparr>is_active := False\<rparr> else rule) rules"
    obtain ls1 h1 where "saveRule uuid1 now1 p1 i1 c1 ls = Some (?n, ls1)"
      "getAllRules ls1 = Some (?m @ [?n])" "getVersionHistory ls1 = Some h1"
      using saveRule_existing [OF g h Some refl] by blast
    moreover from Some have ex: "ex \<in> set rules" "?P ex"
      by (auto dest: find_Some_mem)
    have "\<forall>x\<in>set ?m. \<not> ?P x"
    proof
      fix x assume "x \<in> set ?m"
      then obtain r where r: "r \<in> set rules"
        and x: "x = (if id' r = id' ex then ex\<lparr>is_active := False\<rparr> else r)"
        by auto
      show "\<not> ?P x"
      proof (cases "id' r = id' ex")
        case True
        with x show ?thesis by simp
      next
        case False
        then have "r \<noteq> ex" by auto
        then have "\<not> ?P r" using filter_le1_unique [OF one r _ ex(1) ex(2)] by blast
        with x False show ?thesis by simp
      qed
    qed
    then have "find ?P (?m @ [?n]) = Some ?n"
      using ex by (intro find_append_last) auto
    moreover have "version ?n \<in> \<int> \<and> \<bar>version ?n\<bar> + 1 \<le> 2 ^ 53"
    proof -
      from ok ex have e: "version ex \<in> \<int>" "\<bar>version ex\<bar> + 2 \<le> 2 ^ 53"
        by (auto simp: exact_successors_def)
      from e(1) have "version ex + 1 \<in> \<int>" by (intro Ints_add Ints_1)
      moreover from e(2) have "\<bar>version ex + 1\<bar> + 1 \<le> 2 ^ 53" by linarith
      ultimately show ?thesis by simp
    qed
    ultimately show ?thesis by auto
  qed
  then obtain n1 ls1 rules1 h1 where s1: "saveRule uuid1 now1 p1 i1 c1 ls = Some (n1, ls1)"
    and g1: "getAllRules ls1 = Some rules1" and h1: "getVersionHistory ls1 = Some h1"
    and f1: "find ?P rules1 = Some n1" and i1: "id' n1 = uuid1"
    and v1: "version n1 \<in> \<int>" "\<bar>version n1\<bar> + 1 \<le> 2 ^ 53"
    by blast
  from f1 have f2: "find (\<lambda>rule. rule_type rule = rule_type p2 \<and> is_active rule
                        \<and> conditions rule = conditions p2) rules1 = Some n1"
    by (simp only: P2)
  from v1(2) have v2: "\<bar>version n1\<bar> \<le> 2 ^ 53" "\<bar>version n1 + 1\<bar> \<le> 2 ^ 53"
    by linarith+
  from second_save [OF g1 h1 f2, of uuid2 now2 i2 c2] u i1 s1 v1(1) v2
  show "\<exists>n1 ls1 n2 ls2 rules2.
            saveRule uuid1 now1 p1 i1 c1 ls = Some (n1, ls1)
            \<and> saveRule uuid2 now2 p2 i2 c2 ls1 = Some (n2, ls2)
            \<and> getAllRules ls2 = Some rules2
            \<and> id' n1 = uuid1 \<and> id' n2 = uuid2 \<and> version n2 = version n1 + 1
            \<and> version n1 \<in> \<int> \<and> \<bar>version n1\<bar> \<le> 2 ^ 53 \<and> \<bar>version n2\<bar> \<le> 2 ^ 53
            \<and> is_active n2 \<and> n2 \<in> set rules2 \<and> n1\<lparr>is_active := False\<rparr> \<in> set rules2
            \<and> (\<forall>r\<in>set rules2. id' r = uuid1 \<longrightarrow> \<not> is_active r)"
    by auto
qed

text \<open>
  A store with one active rule of the signature, at version 3; and the store reached from
  the empty one by two saves, a rollback to version 1 and a deactivation, which is a state
  the two saves can start from.
\<close>

theorem save_twice_versions_witness:
  "(\<exists>n1 ls1 n2 ls2 rules2.
      saveRule ''u1'' ''2024-01-01T00:00:00.000Z''
        (amount_parsed ''expense_amount_threshold'' 1000 ''flag'') ''Flag amounts'' ''system''
        [STORAGE_KEY \<mapsto> stringify_rules [amount_rule ''a1'' ''expense_amount_threshold'' 1000 3 True]]
        = Some (n1, ls1)
      \<and> saveRule ''u2'' ''2024-01-02T00:00:00.000Z''
        (amount_parsed ''expense_amount_threshold'' 1000 ''review'') ''Review amounts'' ''auditor'' ls1
        = Some (n2, ls2)
      \<and> getAllRules ls2 = Some rules2
      \<and> id' n1 = ''u1'' \<and> id' n2 = ''u2'' \<and> version n2 = version n1 + 1
      \<and> version n1 \<in> \<int> \<and> \<bar>version n1\<bar> \<le> 2 ^ 53 \<and> \<bar>version n2\<bar> \<le> 2 ^ 53
      \<and> is_active n2 \<and> n2 \<in> set rules2 \<and> n1\<lparr>is_active := False\<rparr> \<in> set rules2
      \<and> (\<forall>r\<in>set rules2. id' r = ''u1'' \<longrightarrow> \<not> is_active r))
   \<and> (\<exists>ls n1 ls1 n2 ls2 rules2.
      run_ops
        [Save ''a1'' ''2024-01-01T00:00:00.000Z''
           (amount_parsed ''expense_amount_threshold'' 1000 ''flag'') ''Flag amounts'' ''system'',
         Save ''a2'' ''2024-01-02T00:00:00.000Z''
           (amount_parsed ''expense_amount_threshold'' 1000 ''flag'') ''Flag amounts'' ''system'',
         Rollback ''expense_amount_threshold'' 1,
         Deactivate ''a2'']
        Map.empty = Some ls
      \<and> saveRule ''u1'' ''2024-01-03T00:00:00.000Z''
        (amount_parsed ''expense_amount_threshold'' 1000 ''flag'') ''Flag amounts'' ''system'' ls
        = Some (n1, ls1)
      \<and> saveRule ''u2'' ''2024-01-04T00:00:00.000Z''
        (amount_parsed ''expense_amount_threshold'' 1000 ''review'') ''Review amounts'' ''auditor'' ls1
        = Some (n2, ls2)
      \<and> getAllRules ls2 = Some rules2
      \<and> id' n1 = ''u1'' \<and> id' n2 = ''u2'' \<and> version n2 = version n1 + 1
      \<and> is_active n2 \<and> n2 \<in> set rules2 \<and> n1\<lparr>is_active := False\<rparr> \<in> set rules2)"
  (is "?stored \<and> ?run")
proof (rule conjI)
  show ?stored
    by (rule save_twice_versions [THEN conjunct2, rule_format,
          where rules = "[amount_rule ''a1'' ''expense_amount_threshold'' 1000 3 True]" and h = "[]"])
       (simp add: amount_rule_def amount_parsed_def getVersionHistory_def keys_differ
          keys_differ [symmetric] exact_successors_def)
next
  let ?p = "amount_parsed ''expense_amount_threshold'' 1000 ''flag''"
  let ?q = "amount_parsed ''expense_amount_threshold'' 1000 ''review''"
  let ?ops = "[Save ''a1'' ''2024-01-01T00:00:00.000Z'' ?p ''Flag amounts'' ''system'',
         Save ''a2'' ''2024-01-02T00:00:00.000Z'' ?p ''Flag amounts'' ''system'',
         Rollback ''expense_amount_threshold'' 1,
         Deactivate ''a2'']"
  from save_twice_versions [THEN conjunct1, rule_format, of ?ops]
  obtain ls rules h where r: "run_ops ?ops Map.empty = Some ls"
    and g: "getAllRules ls = Some rules" and h: "getVersionHistory ls = Some h"
    and one: "\<forall>p::ParsedRule. length (filter (\<lambda>rule. rule_type rule = rule_type p \<and> is_active rule
                                       \<and> conditions rule = conditions p) rules) \<le> 1"
    and ex: "length rules + 2 \<le> 2 ^ 53 \<longrightarrow> (\<forall>r\<in>set rules. exact_successors (version r))"
    by (elim exE conjE)
  have "Option.bind (run_ops ?ops Map.empty) (\<lambda>ls. map_option length (getAllRules ls)) = Some 2"
    by code_simp
  with r g have "length rules = 2" by simp
  with ex have ok: "\<forall>r\<in>set rules. exact_successors (version r)" by simp
  have hyp: "getAllRules ls = Some rules \<and> getVersionHistory ls = Some h
        \<and> length (filter (\<lambda>rule. rule_type rule = rule_type ?p \<and> is_active rule
                                  \<and> conditions rule = conditions ?p) rules) \<le> 1
        \<and> (\<forall>r\<in>set rules. rule_type r = rule_type ?p \<and> is_active r \<and> conditions r = conditions ?p
              \<longrightarrow> exact_successors (version r))
        \<and> rule_type ?q = rule_type ?p \<and> conditions ?q = conditions ?p \<and> ''u1'' \<noteq> ''u2''"
  proof (intro conjI)
    show "length (filter (\<lambda>rule. rule_type rule = rule_type ?p \<and> is_active rule
                                  \<and> conditions rule = conditions ?p) rules) \<le> 1"
      using one by (rule spec)
    show "\<forall>r\<in>set rules. rule_type r = rule_type ?p \<and> is_active r \<and> conditions r = conditions ?p
              \<longrightarrow> exact_successors (version r)"
      using ok by simp
  qed (use g h in \<open>simp_all add: amount_parsed_def\<close>)
  from save_twice_versions [THEN conjunct2, rule_format, OF hyp,
      of "''2024-01-03T00:00:00.000Z''" "''Flag amounts''" "''system''"
         "''2024-01-04T00:00:00.000Z''" "''Review amounts''" "''auditor''"] r
  show ?run by blast
qed

text \<open>
  Claim C5 as stated fails on a store state with two active rules of the signature, at
  versions 3 and 7: the first save clones the first of them (version 4), the second save
  clones the other (version 8, not 5), and the first entry stays active.
\<close>

theorem save_twice_two_active_counterexample:
  "Option.bind
     (run_ops
        [Save ''u1'' ''2024-01-01T00:00:00.000Z''
           (amount_parsed ''expense_amount_threshold'' 1000 ''flag'') ''Flag amounts'' ''system'',
         Save ''u2'' ''2024-01-01T00:00:00.000Z''
           (amount_parsed ''expense_amount_threshold'' 1000 ''flag'') ''Flag amounts'' ''system'']
        [STORAGE_KEY \<mapsto> stringify_rules
           [amount_rule ''a'' ''expense_amount_threshold'' 1000 3 True,
            amount_rule ''b'' ''expense_amount_threshold'' 1000 7 True]])
     getAllRules
   = Some [amount_rule ''a'' ''expense_amount_threshold'' 1000 3 False,
           amount_rule ''b'' ''expense_amount_threshold'' 1000 7 False,
           amount_rule ''u1'' ''expense_amount_threshold'' 1000 4 True,
           amount_rule ''u2'' ''expense_amount_threshold'' 1000 8 True]"
  by code_simp

subsection \<open>Runs of store operations\<close>

lemma activated_update [simp]: "activated (r\<lparr>is_active := b\<rparr>) = activated r"
  by (simp add: activated_def)

lemma activated_fields [simp]:
  "version (activated r) = version r" "id' (activated r) = id' r"
  "rule_type (activated r) = rule_type r" "action (activated r) = action r"
  "conditions (activated r) = conditions r"
  by (simp_all add: activated_def)

lemma activated_list_update:
  "k < length xs \<Longrightarrow> map activated (xs[k := (xs ! k)\<lparr>is_active := b\<rparr>]) = map activated xs"
  by (simp add: map_update list_update_same_conv)

lemma deactivate_typed:
  assumes "getAllRules ls = Some rules"
  shows "\<exists>b ls' rules'. deactivateRule i ls = Some (b, ls') \<and> getAllRules ls' = Some rules'
      \<and> getVersionHistory ls' = getVersionHistory ls
      \<and> map activated rules' = map activated rules"
proof (cases "findIndex (\<lambda>rule. id' rule = i) rules")
  case None
  with assms show ?thesis
    by (auto simp: deactivateRule_def)
next
  case (Some k)
  then have k: "k < length rules" by (auto dest: findIndex_Some)
  with Some assms show ?thesis
    by (auto simp: deactivateRule_def activated_list_update)
qed

lemma rollback_typed:
  assumes "getAllRules ls = Some rules"
  shows "\<exists>res ls' rules'. rollbackToVersion t v ls = Some (res, ls') \<and> getAllRules ls' = Some rules'
      \<and> getVersionHistory ls' = getVersionHistory ls
      \<and> map activated rules' = map activated rules"
proof (cases "findIndex (\<lambda>rule. rule_type rule = t \<and> version rule = v) rules")
  case None
  with assms show ?thesis
    by (simp add: rollbackToVersion_def)
next
  case (Some k)
  then have k: "k < length rules" by (auto dest: findIndex_Some)
  let ?d = "map (\<lambda>rule. if rule_type rule = t \<and> is_active rule
                             then rule\<lparr>is_active := False\<rparr> else rule) rules"
  have d: "map activated ?d = map activated rules"
    by (induction rules) auto
  have "map activated (?d[k := (?d ! k)\<lparr>is_active := True\<rparr>]) = map activated ?d"
    using k by (intro activated_list_update) simp
  with d have "map activated (?d[k := (?d ! k)\<lparr>is_active := True\<rparr>]) = map activated rules"
    by simp
  with Some assms show ?thesis
    by (simp add: rollbackToVersion_def Let_def)
qed

lemma save_typed:
  assumes g: "getAllRules ls = Some rules" and h: "getVersionHistory ls = Some h"
  shows "\<exists>n ls' before h'. saveRule uuid now p i c ls = Some (n, ls')
      \<and> getAllRules ls' = Some (before @ [n]) \<and> getVersionHistory ls' = Some h'
      \<and> activated ` set before \<subseteq> activated ` set rules
      \<and> id' n = uuid \<and> lineage n = lineage p
      \<and> ((version n = 1 \<and> action n = action p)
          \<or> (\<exists>ex\<in>set rules. version n = version ex + 1 \<and> rule_type n = rule_type ex
                \<and> action n = action ex))"
proof (cases "find (\<lambda>rule. rule_type rule = rule_type p \<and> is_active rule
                        \<and> conditions rule = conditions p) rules")
  case None
  let ?n = "\<lparr>rule_type = rule_type p, conditions = conditions p, action = action p,
              reason = reason p, confidence_score = confidence_score p, id' = uuid,
              version = 1, original_instruction = i, created_at = now, created_by = c,
              is_active = True\<rparr>"
  obtain ls' h' where s: "saveRule uuid now p i c ls = Some (?n, ls')"
      "getAllRules ls' = Some (rules @ [?n])" "getVersionHistory ls' = Some h'"
    using saveRule_new [OF g h None refl] by blast
  have "lineage ?n = lineage p" by (simp add: lineage_def)
  then show ?thesis using s
    by (intro exI [of _ ?n] exI [of _ ls'] exI [of _ rules] exI [of _ h']) simp
next
  case (Some ex)
  then have ex: "ex \<in> set rules" "rule_type ex = rule_type p" "conditions ex = conditions p"
    by (auto dest: find_Some_mem)
  let ?n = "ex\<lparr>id' := uuid, version := version ex + 1, original_instruction := i,
                 created_at := now, created_by := c, confidence_score := confidence_score p\<rparr>"
  let ?m = "map (\<lambda>rule. if id' rule = id' ex then ex\<lparr>is_active := False\<rparr> else rule) rules"
  obtain ls' h' where s: "saveRule uuid now p i c ls = Some (?n, ls')"
      "getAllRules ls' = Some (?m @ [?n])" "getVersionHistory ls' = Some h'"
    using saveRule_existing [OF g h Some refl] by blast
  have "activated ` set ?m \<subseteq> activated ` set rules"
    using ex(1) by auto
  moreover have "\<exists>e\<in>set rules. version ?n = version e + 1 \<and> rule_type ?n = rule_type e
                \<and> action ?n = action e"
    using ex(1) by (intro bexI [of _ ex]) simp_all
  moreover have "lineage ?n = lineage p" using ex by (simp add: lineage_def)
  ultimately show ?thesis using s
    by (intro exI [of _ ?n] exI [of _ ls'] exI [of _ ?m] exI [of _ h']) simp
qed

lemma positive_versions_activated:
  "positive_versions rules \<Longrightarrow> activated ` set rules' \<subseteq> activated ` set rules
     \<Longrightarrow> positive_versions rules'"
  unfolding positive_versions_def
proof
  fix r' assume a: "\<forall>r\<in>set rules. version r \<in> \<nat> \<and> 0 < version r"
    and s: "activated ` set rules' \<subseteq> activated ` set rules" and r': "r' \<in> set rules'"
  then obtain r where "r \<in> set rules" "activated r' = activated r" by auto
  then have "version r' = version r" using activated_fields(1) by metis
  with a \<open>r \<in> set rules\<close> show "version r' \<in> \<nat> \<and> 0 < version r'" by simp
qed

lemma named_rules_activated:
  "named_rules rules \<Longrightarrow> activated ` set rules' \<subseteq> activated ` set rules
     \<Longrightarrow> named_rules rules'"
  unfolding named_rules_def
proof
  fix r' assume a: "\<forall>r\<in>set rules. id' r \<noteq> [] \<and> rule_type r \<noteq> [] \<and> action r \<noteq> []"
    and s: "activated ` set rules' \<subseteq> activated ` set rules" and r': "r' \<in> set rules'"
  then obtain r where "r \<in> set rules" "activated r' = activated r" by auto
  then have "id' r' = id' r" "rule_type r' = rule_type r" "action r' = action r"
    using activated_fields by metis+
  with a \<open>r \<in> set rules\<close> show "id' r' \<noteq> [] \<and> rule_type r' \<noteq> [] \<and> action r' \<noteq> []" by simp
qed

lemma positive_versions_snoc:
  "positive_versions (before @ [n]) \<longleftrightarrow>
     positive_versions before \<and> version n \<in> \<nat> \<and> 0 < version n"
  by (auto simp: positive_versions_def)

lemma named_rules_snoc:
  "named_rules (before @ [n]) \<longleftrightarrow>
     named_rules before \<and> id' n \<noteq> [] \<and> rule_type n \<noteq> [] \<and> action n \<noteq> []"
  by (auto simp: named_rules_def)

lemma apply_op_inv:
  assumes g: "getAllRules ls = Some rules" and h: "getVersionHistory ls = Some h"
  shows "\<exists>ls' rules' h'. apply_op op ls = Some ls' \<and> getAllRules ls' = Some rules'
      \<and> getVersionHistory ls' = Some h'
      \<and> (positive_versions rules \<longrightarrow> positive_versions rules')
      \<and> (named_rules rules
           \<and> (is_Save op \<longrightarrow> save_uuid op \<noteq> [] \<and> rule_type (save_rule op) \<noteq> []
                                \<and> action (save_rule op) \<noteq> [])
          \<longrightarrow> named_rules rules')"
proof (cases op)
  case (Save uuid now p i c)
  obtain n ls' before h' where s: "saveRule uuid now p i c ls = Some (n, ls')"
    and g': "getAllRules ls' = Some (before @ [n])" and h': "getVersionHistory ls' = Some h'"
    and sub: "activated ` set before \<subseteq> activated ` set rules"
    and n: "id' n = uuid" "lineage n = lineage p"
    and v: "(version n = 1 \<and> action n = action p)
          \<or> (\<exists>ex\<in>set rules. version n = version ex + 1 \<and> rule_type n = rule_type ex
                \<and> action n = action ex)"
    using save_typed [OF g h] by blast
  have pos: "positive_versions (before @ [n])" if p: "positive_versions rules"
  proof -
    have "version n \<in> \<nat> \<and> 0 < version n"
      using v p by (auto simp: positive_versions_def intro: Nats_add)
    with positive_versions_activated [OF p sub] show ?thesis
      by (simp add: positive_versions_snoc)
  qed
  have nam: "named_rules (before @ [n])"
    if q: "named_rules rules" and ok: "uuid \<noteq> []" "rule_type p \<noteq> []" "action p \<noteq> []"
  proof -
    have "rule_type n = rule_type p" using n(2) by (simp add: lineage_def)
    moreover have "action n \<noteq> []" using v ok q by (auto simp: named_rules_def)
    ultimately show ?thesis
      using named_rules_activated [OF q sub] n(1) ok by (simp add: named_rules_snoc)
  qed
  from s g' h' pos nam Save show ?thesis by auto
next
  case (Rollback t v)
  obtain res ls' rules' where "rollbackToVersion t v ls = Some (res, ls')"
    "getAllRules ls' = Some rules'" "getVersionHistory ls' = getVersionHistory ls"
    and m: "map activated rules' = map activated rules"
    using rollback_typed [OF g] by blast
  moreover from m have "activated ` set rules' \<subseteq> activated ` set rules"
    by (metis set_map subset_refl)
  ultimately show ?thesis
    using Rollback h positive_versions_activated named_rules_activated by auto
next
  case (Deactivate i)
  obtain b ls' rules' where "deactivateRule i ls = Some (b, ls')"
    "getAllRules ls' = Some rules'" "getVersionHistory ls' = getVersionHistory ls"
    and m: "map activated rules' = map activated rules"
    using deactivate_typed [OF g] by blast
  moreover from m have "activated ` set rules' \<subseteq> activated ` set rules"
    by (metis set_map subset_refl)
  ultimately show ?thesis
    using Deactivate h positive_versions_activated named_rules_activated by auto
qed

lemma run_ops_inv:
  assumes "getAllRules ls = Some rules" and "getVersionHistory ls = Some h"
  shows "\<exists>ls' rules' h'. run_ops ops ls = Some ls' \<and> getAllRules ls' = Some rules'
      \<and> getVersionHistory ls' = Some h'
      \<and> (positive_versions rules \<longrightarrow> positive_versions rules')
      \<and> (named_rules rules
           \<and> (\<forall>op\<in>set ops. is_Save op \<longrightarrow> save_uuid op \<noteq> [] \<and> rule_type (save_rule op) \<noteq> []
                                \<and> action (save_rule op) \<noteq> [])
          \<longrightarrow> named_rules rules')"
  using assms
proof (induction ops arbitrary: ls rules h)
  case Nil
  then show ?case by simp
next
  case (Cons op ops)
  obtain ls1 rules1 h1 where a: "apply_op op ls = Some ls1" "getAllRules ls1 = Some rules1"
      "getVersionHistory ls1 = Some h1"
      "positive_versions rules \<longrightarrow> positive_versions rules1"
      "named_rules rules
           \<and> (is_Save op \<longrightarrow> save_uuid op \<noteq> [] \<and> rule_type (save_rule op) \<noteq> []
                                \<and> action (save_rule op) \<noteq> [])
          \<longrightarrow> named_rules rules1"
    using apply_op_inv [OF Cons.prems] by blast
  from Cons.IH [OF a(2) a(3)] obtain ls' rules' h' where
    b: "run_ops ops ls1 = Some ls'" "getAllRules ls' = Some rules'"
      "getVersionHistory ls' = Some h'"
      "positive_versions rules1 \<longrightarrow> positive_versions rules'"
      "named_rules rules1
           \<and> (\<forall>op\<in>set ops. is_Save op \<longrightarrow> save_uuid op \<noteq> [] \<and> rule_type (save_rule op) \<noteq> []
                                \<and> action (save_rule op) \<noteq> [])
          \<longrightarrow> named_rules rules'"
    by blast
  from a b show ?case by auto
qed

lemma has_required_rule:
  "has_required (JSON_of_AuditRule r) \<longleftrightarrow> id' r \<noteq> [] \<and> rule_type r \<noteq> [] \<and> action r \<noteq> []"
  by (simp add: has_required_def JSON_of_AuditRule_def get_def)

lemma roundtrip_named:
  assumes "getAllRules ls = Some rules" and "named_rules rules"
  shows "\<exists>ls'. export_clear_import ls = Some (True, ls') \<and> getAllRules ls' = Some rules"
proof -
  have "list_all has_required (map JSON_of_AuditRule rules)"
    using assms(2) by (simp add: list_all_iff named_rules_def has_required_rule)
  then have "importRules (JSON_text (stringify_rules rules)) (clearAllRules ls)
      = (True, (clearAllRules ls)(STORAGE_KEY \<mapsto> stringify_rules rules))"
    unfolding stringify_rules_def by (rule importRules_valid)
  with assms(1) show ?thesis
    by (simp add: export_clear_import_def exportRules_def)
qed

lemma lineage_step_I1:
  fixes S :: "AuditRule set"
  assumes I1: "\<forall>r\<in>S. \<exists>a\<in>S. lineage a = lineage r \<and> is_active a"
    and I6: "\<forall>a\<in>S. \<forall>b\<in>S. lineage a = lineage b \<and> is_active a \<and> is_active b \<longrightarrow> a = b"
    and ex: "ex \<in> S" "is_active ex"
    and ex': "lineage ex' = lineage ex"
    and n: "lineage n = lineage ex" "is_active n"
  shows "\<forall>r\<in>insert n (insert ex' (S - {ex})). \<exists>a\<in>insert n (insert ex' (S - {ex})).
           lineage a = lineage r \<and> is_active a"
proof
  fix r assume r: "r \<in> insert n (insert ex' (S - {ex}))"
  show "\<exists>a\<in>insert n (insert ex' (S - {ex})). lineage a = lineage r \<and> is_active a"
  proof (cases "lineage r = lineage ex")
    case True
    with n show ?thesis by auto
  next
    case False
    with r n ex' have rS: "r \<in> S" by auto
    with I1 obtain a where a: "a \<in> S" "lineage a = lineage r" "is_active a" by blast
    with False have "a \<noteq> ex" by auto
    with a show ?thesis by auto
  qed
qed

lemma lineage_step_I6:
  fixes S :: "AuditRule set"
  assumes I6: "\<forall>a\<in>S. \<forall>b\<in>S. lineage a = lineage b \<and> is_active a \<and> is_active b \<longrightarrow> a = b"
    and ex: "ex \<in> S" "is_active ex"
    and ex': "\<not> is_active ex'"
    and n: "lineage n = lineage ex"
  shows "\<forall>a\<in>insert n (insert ex' (S - {ex})). \<forall>b\<in>insert n (insert ex' (S - {ex})).
           lineage a = lineage b \<and> is_active a \<and> is_active b \<longrightarrow> a = b"
proof (intro ballI impI)
  fix a b
  assume a: "a \<in> insert n (insert ex' (S - {ex}))" and b: "b \<in> insert n (insert ex' (S - {ex}))"
    and c: "lineage a = lineage b \<and> is_active a \<and> is_active b"
  have old: "x \<noteq> n \<Longrightarrow> x \<in> insert n (insert ex' (S - {ex})) \<Longrightarrow> is_active x
      \<Longrightarrow> x \<in> S \<and> x \<noteq> ex \<and> lineage x \<noteq> lineage ex" for x
    using ex ex' I6 by auto
  show "a = b"
  proof (cases "a = n")
    case True
    show ?thesis
    proof (cases "b = n")
      case True
      with \<open>a = n\<close> show ?thesis by simp
    next
      case False
      from old [OF False b] c have "lineage b \<noteq> lineage ex" by simp
      with True c n show ?thesis by simp
    qed
  next
    case False
    from old [OF False a] c have a': "a \<in> S" "lineage a \<noteq> lineage ex" by simp_all
    show ?thesis
    proof (cases "b = n")
      case True
      with c n a' show ?thesis by simp
    next
      case False
      from old [OF False b] c have "b \<in> S" by simp
      with a' c I6 show ?thesis by blast
    qed
  qed
qed

lemma lineage_step_I2:
  fixes S :: "AuditRule set"
  assumes I2: "\<forall>r\<in>S. \<forall>a\<in>S. lineage a = lineage r \<and> is_active a \<longrightarrow> version r \<le> version a"
    and I6: "\<forall>a\<in>S. \<forall>b\<in>S. lineage a = lineage b \<and> is_active a \<and> is_active b \<longrightarrow> a = b"
    and ex: "ex \<in> S" "is_active ex"
    and ex': "lineage ex' = lineage ex" "\<not> is_active ex'" "version ex' = version ex"
    and n: "lineage n = lineage ex" "version n = version ex + 1"
  shows "\<forall>r\<in>insert n (insert ex' (S - {ex})). \<forall>a\<in>insert n (insert ex' (S - {ex})).
           lineage a = lineage r \<and> is_active a \<longrightarrow> version r \<le> version a"
proof (intro ballI impI)
  fix r a
  assume r: "r \<in> insert n (insert ex' (S - {ex}))" and a: "a \<in> insert n (insert ex' (S - {ex}))"
    and c: "lineage a = lineage r \<and> is_active a"
  show "version r \<le> version a"
  proof (cases "a = n")
    case True
    have "version r \<le> version ex + 1"
    proof -
      consider "r = n" | "r = ex'" | "r \<in> S"
        using r by auto
      then show ?thesis
      proof cases
        case 1
        with n show ?thesis by simp
      next
        case 2
        with ex' show ?thesis by simp
      next
        case 3
        with c True n have "lineage ex = lineage r" by simp
        with I2 3 ex have "version r \<le> version ex" by blast
        then show ?thesis by simp
      qed
    qed
    with True n show ?thesis by simp
  next
    case False
    with a c ex' have aS: "a \<in> S" "a \<noteq> ex" by auto
    with c I6 ex have nl: "lineage a \<noteq> lineage ex" by blast
    with c n ex' r have "r \<in> S" by auto
    with I2 aS c show ?thesis by blast
  qed
qed

lemma same_id_same_rule:
  "distinct (map id' rules) \<Longrightarrow> ex \<in> set rules \<Longrightarrow> r \<in> set rules \<Longrightarrow> id' r = id' ex \<Longrightarrow> r = ex"
  by (auto simp: distinct_map dest: inj_onD)

lemma replace_by_id_set:
  assumes "distinct (map id' rules)" and "ex \<in> set rules"
  shows "set (map (\<lambda>r. if id' r = id' ex then ex' else r) rules) = insert ex' (set rules - {ex})"
  using assms same_id_same_rule [OF assms] by (auto simp: image_iff)

lemma replace_by_id_ids:
  assumes "id' ex' = id' ex"
  shows "map id' (map (\<lambda>r. if id' r = id' ex then ex' else r) rules) = map id' rules"
  using assms by (induction rules) auto

lemma lineage_inv_new:
  assumes inv: "lineage_inv rules" and fresh: "id' n \<notin> id' ` set rules"
    and none: "\<forall>r\<in>set rules. \<not> (lineage r = lineage n \<and> is_active r)"
    and act: "is_active n"
  shows "lineage_inv (rules @ [n]) \<and> (\<forall>r\<in>set rules. lineage r \<noteq> lineage n)"
proof -
  from inv have I1: "\<forall>r\<in>set rules. \<exists>a\<in>set rules. lineage a = lineage r \<and> is_active a"
    and I2: "\<forall>r\<in>set rules. \<forall>a\<in>set rules. lineage a = lineage r \<and> is_active a \<longrightarrow> version r \<le> version a"
    and I6: "\<forall>a\<in>set rules. \<forall>b\<in>set rules. lineage a = lineage b \<and> is_active a \<and> is_active b \<longrightarrow> a = b"
    and d: "distinct (map id' rules)"
    by (simp_all add: lineage_inv_def)
  have nl: "\<forall>r\<in>set rules. lineage r \<noteq> lineage n"
  proof
    fix r assume "r \<in> set rules"
    with I1 obtain a where "a \<in> set rules" "lineage a = lineage r" "is_active a" by blast
    with none show "lineage r \<noteq> lineage n" by auto
  qed
  have "distinct (map id' (rules @ [n]))" using d fresh by simp
  moreover have "\<forall>r\<in>set (rules @ [n]). \<exists>a\<in>set (rules @ [n]). lineage a = lineage r \<and> is_active a"
    using I1 act by auto
  moreover have "\<forall>r\<in>set (rules @ [n]). \<forall>a\<in>set (rules @ [n]).
      lineage a = lineage r \<and> is_active a \<longrightarrow> version r \<le> version a"
    using I2 nl by auto
  moreover have "\<forall>a\<in>set (rules @ [n]). \<forall>b\<in>set (rules @ [n]).
      lineage a = lineage b \<and> is_active a \<and> is_active b \<longrightarrow> a = b"
    using I6 nl by auto
  ultimately show ?thesis using nl unfolding lineage_inv_def by blast
qed

lemma lineage_inv_next:
  assumes inv: "lineage_inv rules" and fresh: "id' n \<notin> id' ` set rules"
    and ex: "ex \<in> set rules" "is_active ex"
    and n: "lineage n = lineage ex" "is_active n" "version n = version ex + 1"
  shows "lineage_inv (map (\<lambda>r. if id' r = id' ex then ex\<lparr>is_active := False\<rparr> else r) rules @ [n])
     \<and> (\<forall>r\<in>set rules. lineage r = lineage n \<longrightarrow> version r < version n)"
proof -
  let ?ex' = "ex\<lparr>is_active := False\<rparr>"
  let ?m = "map (\<lambda>r. if id' r = id' ex then ?ex' else r) rules"
  from inv have I1: "\<forall>r\<in>set rules. \<exists>a\<in>set rules. lineage a = lineage r \<and> is_active a"
    and I2: "\<forall>r\<in>set rules. \<forall>a\<in>set rules. lineage a = lineage r \<and> is_active a \<longrightarrow> version r \<le> version a"
    and I6: "\<forall>a\<in>set rules. \<forall>b\<in>set rules. lineage a = lineage b \<and> is_active a \<and> is_active b \<longrightarrow> a = b"
    and d: "distinct (map id' rules)"
    by (simp_all add: lineage_inv_def)
  have ex': "lineage ?ex' = lineage ex" "\<not> is_active ?ex'" "version ?ex' = version ex"
    by (simp_all add: lineage_def)
  have S: "set (?m @ [n]) = insert n (insert ?ex' (set rules - {ex}))"
    using replace_by_id_set [OF d ex(1), of ?ex'] by simp
  have ids: "map id' ?m = map id' rules"
    by (rule replace_by_id_ids) simp
  have "distinct (map id' (?m @ [n]))"
    using d fresh ids by (simp del: map_map)
  moreover have "\<forall>r\<in>set (?m @ [n]). \<exists>a\<in>set (?m @ [n]). lineage a = lineage r \<and> is_active a"
    unfolding S using I1 I6 ex ex'(1) n(1) n(2) by (rule lineage_step_I1)
  moreover have "\<forall>r\<in>set (?m @ [n]). \<forall>a\<in>set (?m @ [n]).
      lineage a = lineage r \<and> is_active a \<longrightarrow> version r \<le> version a"
    unfolding S using I2 I6 ex ex' n(1) n(3) by (rule lineage_step_I2)
  moreover have "\<forall>a\<in>set (?m @ [n]). \<forall>b\<in>set (?m @ [n]).
      lineage a = lineage b \<and> is_active a \<and> is_active b \<longrightarrow> a = b"
    unfolding S using I6 ex ex'(2) n(1) by (rule lineage_step_I6)
  moreover have "\<forall>r\<in>set rules. lineage r = lineage n \<longrightarrow> version r < version n"
  proof (intro ballI impI)
    fix r assume "r \<in> set rules" "lineage r = lineage n"
    with I2 ex n have "version r \<le> version ex" by auto
    with n show "version r < version n" by simp
  qed
  ultimately show ?thesis unfolding lineage_inv_def by blast
qed

lemma save_lineage:
  assumes g: "getAllRules ls = Some rules" and h: "getVersionHistory ls = Some h"
    and inv: "lineage_inv rules" and fresh: "uuid \<notin> id' ` set rules"
  shows "\<exists>n ls' rules' h'. saveRule uuid now p i c ls = Some (n, ls')
      \<and> getAllRules ls' = Some rules' \<and> getVersionHistory ls' = Some h'
      \<and> lineage_inv rules' \<and> id' ` set rules' = insert uuid (id' ` set rules)
      \<and> lineage n = lineage p
      \<and> (\<forall>r\<in>set rules. lineage r = lineage p \<longrightarrow> version r < version n)"
proof (cases "find (\<lambda>rule. rule_type rule = rule_type p \<and> is_active rule
                        \<and> conditions rule = conditions p) rules")
  case None
  let ?n = "\<lparr>rule_type = rule_type p, conditions = conditions p, action = action p,
              reason = reason p, confidence_score = confidence_score p, id' = uuid,
              version = 1, original_instruction = i, created_at = now, created_by = c,
              is_active = True\<rparr>"
  obtain ls' h' where s: "saveRule uuid now p i c ls = Some (?n, ls')"
      "getAllRules ls' = Some (rules @ [?n])" "getVersionHistory ls' = Some h'"
    using saveRule_new [OF g h None refl] by blast
  have l: "lineage ?n = lineage p" by (simp add: lineage_def)
  have "\<forall>r\<in>set rules. \<not> (lineage r = lineage ?n \<and> is_active r)"
    using None by (auto simp: find_None_iff lineage_def)
  with lineage_inv_new [OF inv, of ?n] fresh
  have "lineage_inv (rules @ [?n])" "\<forall>r\<in>set rules. lineage r \<noteq> lineage ?n"
    by simp_all
  with s l show ?thesis
    by (intro exI [of _ ?n] exI [of _ ls'] exI [of _ "rules @ [?n]"] exI [of _ h']) auto
next
  case (Some ex)
  then have ex: "ex \<in> set rules" "is_active ex" "lineage ex = lineage p"
    by (auto dest: find_Some_mem simp: lineage_def)
  let ?n = "ex\<lparr>id' := uuid, version := version ex + 1, original_instruction := i,
                 created_at := now, created_by := c, confidence_score := confidence_score p\<rparr>"
  let ?m = "map (\<lambda>rule. if id' rule = id' ex then ex\<lparr>is_active := False\<rparr> else rule) rules"
  obtain ls' h' where s: "saveRule uuid now p i c ls = Some (?n, ls')"
      "getAllRules ls' = Some (?m @ [?n])" "getVersionHistory ls' = Some h'"
    using saveRule_existing [OF g h Some refl] by blast
  have n: "lineage ?n = lineage ex" "is_active ?n" "version ?n = version ex + 1" "id' ?n = uuid"
    using ex(2) by (simp_all add: lineage_def)
  from lineage_inv_next [OF inv _ ex(1) ex(2) n(1) n(2) n(3)] fresh n(4)
  have a: "lineage_inv (?m @ [?n])"
    and b: "\<forall>r\<in>set rules. lineage r = lineage ?n \<longrightarrow> version r < version ?n"
    by simp_all
  have "map id' ?m = map id' rules"
    by (rule replace_by_id_ids) simp
  then have "id' ` set ?m = id' ` set rules"
    by (metis set_map)
  then have ids: "id' ` set (?m @ [?n]) = insert uuid (id' ` set rules)"
    by simp
  from s a b ids n(1) ex(3) show ?thesis
    by (intro exI [of _ ?n] exI [of _ ls'] exI [of _ "?m @ [?n]"] exI [of _ h']) simp
qed

lemma run_saves_lineage:
  assumes "list_all is_Save ops" and "distinct (map save_uuid ops)"
    and "getAllRules ls = Some rules" and "getVersionHistory ls = Some h"
    and "lineage_inv rules" and "id' ` set rules \<inter> set (map save_uuid ops) = {}"
  shows "\<exists>ls' rules' h'. run_ops ops ls = Some ls' \<and> getAllRules ls' = Some rules'
      \<and> getVersionHistory ls' = Some h' \<and> lineage_inv rules'
      \<and> id' ` set rules' \<subseteq> id' ` set rules \<union> set (map save_uuid ops)"
  using assms
proof (induction ops arbitrary: ls rules h)
  case Nil
  then show ?case by simp
next
  case (Cons op ops)
  from Cons.prems(1) have "is_Save op" and saves: "list_all is_Save ops" by simp_all
  then obtain uuid now p i c where op: "op = Save uuid now p i c"
    by (cases op) simp_all
  from Cons.prems(2) op have nu: "uuid \<notin> set (map save_uuid ops)"
    and dist: "distinct (map save_uuid ops)"
    by simp_all
  have uuids: "set (map save_uuid (op # ops)) = insert uuid (set (map save_uuid ops))"
    using op by simp
  from Cons.prems(6) have fresh: "uuid \<notin> id' ` set rules"
    and disj: "id' ` set rules \<inter> set (map save_uuid ops) = {}"
    unfolding uuids by blast+
  obtain n ls1 rules1 h1 where s: "saveRule uuid now p i c ls = Some (n, ls1)"
    and g1: "getAllRules ls1 = Some rules1" and h1: "getVersionHistory ls1 = Some h1"
    and inv1: "lineage_inv rules1" and ids1: "id' ` set rules1 = insert uuid (id' ` set rules)"
    using save_lineage [OF Cons.prems(3) Cons.prems(4) Cons.prems(5) fresh, of now p i c]
    by (elim exE conjE)
  have disj1: "id' ` set rules1 \<inter> set (map save_uuid ops) = {}"
    unfolding ids1 using nu disj by blast
  from Cons.IH [OF saves dist g1 h1 inv1 disj1]
  obtain ls' rules' h' where r: "run_ops ops ls1 = Some ls'" "getAllRules ls' = Some rules'"
    "getVersionHistory ls' = Some h'" "lineage_inv rules'"
    and sub: "id' ` set rules' \<subseteq> id' ` set rules1 \<union> set (map save_uuid ops)"
    by (elim exE conjE)
  have "run_ops (op # ops) ls = Some ls'"
    using s r(1) op by simp
  moreover have "id' ` set rules' \<subseteq> id' ` set rules \<union> set (map save_uuid (op # ops))"
    using sub unfolding ids1 uuids by blast
  ultimately show ?case using r by (intro exI conjI)
qed

lemma lineage_inv_Nil: "lineage_inv []"
  by (simp add: lineage_inv_def)

lemma positive_versions_Nil: "positive_versions []"
  by (simp add: positive_versions_def)

lemma run_positive:
  "\<exists>ls rules h. run_ops ops Map.empty = Some ls \<and> getAllRules ls = Some rules
      \<and> getVersionHistory ls = Some h \<and> positive_versions rules"
  using run_ops_inv [of Map.empty "[]" "[]" ops] positive_versions_Nil by auto

lemma next_save_increases:
  assumes saves: "list_all is_Save ops" and dist: "distinct (map save_uuid ops @ [uuid])"
  shows "\<exists>ls rules n ls'. run_ops ops Map.empty = Some ls \<and> getAllRules ls = Some rules
      \<and> saveRule uuid now p i c ls = Some (n, ls') \<and> lineage n = lineage p
      \<and> version n \<in> \<nat> \<and> 0 < version n
      \<and> (\<forall>r\<in>set rules. lineage r = lineage p \<longrightarrow> version r < version n)"
proof -
  from dist have d: "distinct (map save_uuid ops)" and nu: "uuid \<notin> set (map save_uuid ops)"
    by simp_all
  have e: "id' ` set ([]::AuditRule list) \<inter> set (map save_uuid ops) = {}" by simp
  from run_saves_lineage [OF saves d getAllRules_empty getVersionHistory_empty lineage_inv_Nil e]
  obtain ls rules h where r: "run_ops ops Map.empty = Some ls" "getAllRules ls = Some rules"
      "getVersionHistory ls = Some h" "lineage_inv rules"
    and ids: "id' ` set rules \<subseteq> id' ` set ([]::AuditRule list) \<union> set (map save_uuid ops)"
    by (elim exE conjE)
  from ids nu have fresh: "uuid \<notin> id' ` set rules" by auto
  from run_positive [of ops] r(1) r(2) have pos: "positive_versions rules"
    by auto
  from save_lineage [OF r(2) r(3) r(4) fresh, of now p i c]
  obtain n ls' where s: "saveRule uuid now p i c ls = Some (n, ls')"
    and l: "lineage n = lineage p"
    and inc: "\<forall>r\<in>set rules. lineage r = lineage p \<longrightarrow> version r < version n"
    by (elim exE conjE)
  from save_typed [OF r(2) r(3), of uuid now p i c] s
  have "version n = 1 \<or> (\<exists>ex\<in>set rules. version n = version ex + 1)"
    by auto
  with pos have "version n \<in> \<nat> \<and> 0 < version n"
    by (auto simp: positive_versions_def intro: Nats_add)
  with r s l inc show ?thesis by blast
qed

text \<open>
  Claim C4, as amended. After every run of saves, rollbacks and deactivations from the
  empty store, every stored version is a positive integer. After every run of saves only
  (the generated identifiers being distinct), a further save assigns a version that is
  a positive integer and strictly greater than every version stored in the lineage of
  the saved rule.
\<close>

theorem versions_increase_under_saves:
  "(\<exists>ls rules. run_ops ops Map.empty = Some ls \<and> getAllRules ls = Some rules
       \<and> (\<forall>r\<in>set rules. version r \<in> \<nat> \<and> 0 < version r))
   \<and> (list_all is_Save ops \<and> distinct (map save_uuid ops @ [uuid]) \<longrightarrow>
        (\<exists>ls rules n ls'. run_ops ops Map.empty = Some ls \<and> getAllRules ls = Some rules
           \<and> saveRule uuid now p i c ls = Some (n, ls') \<and> lineage n = lineage p
           \<and> version n \<in> \<nat> \<and> 0 < version n
           \<and> (\<forall>r\<in>set rules. lineage r = lineage p \<longrightarrow> version r < version n)))"
proof (intro conjI impI)
  show "\<exists>ls rules. run_ops ops Map.empty = Some ls \<and> getAllRules ls = Some rules
       \<and> (\<forall>r\<in>set rules. version r \<in> \<nat> \<and> 0 < version r)"
    using run_positive [of ops] unfolding positive_versions_def by blast
next
  assume "list_all is_Save ops \<and> distinct (map save_uuid ops @ [uuid])"
  then show "\<exists>ls rules n ls'. run_ops ops Map.empty = Some ls \<and> getAllRules ls = Some rules
           \<and> saveRule uuid now p i c ls = Some (n, ls') \<and> lineage n = lineage p
           \<and> version n \<in> \<nat> \<and> 0 < version n
           \<and> (\<forall>r\<in>set rules. lineage r = lineage p \<longrightarrow> version r < version n)"
    using next_save_increases by blast
qed

lemma one_save_run:
  "Option.bind
     (run_ops
        [Save ''u1'' ''2024-01-01T00:00:00.000Z''
           (amount_parsed ''expense_amount_threshold'' 1000 ''flag'') ''Flag amounts'' ''system'']
        Map.empty)
     getAllRules
   = Some [amount_rule ''u1'' ''expense_amount_threshold'' 1000 1 True]"
  by code_simp

text \<open>One save, then a save of the same signature.\<close>

theorem versions_increase_under_saves_witness:
  "\<exists>ls n ls'.
     run_ops
        [Save ''u1'' ''2024-01-01T00:00:00.000Z''
           (amount_parsed ''expense_amount_threshold'' 1000 ''flag'') ''Flag amounts'' ''system'']
        Map.empty = Some ls
     \<and> getAllRules ls = Some [amount_rule ''u1'' ''expense_amount_threshold'' 1000 1 True]
     \<and> saveRule ''u2'' ''2024-01-02T00:00:00.000Z''
          (amount_parsed ''expense_amount_threshold'' 1000 ''review'') ''Review amounts'' ''auditor'' ls
        = Some (n, ls')
     \<and> lineage n = lineage (amount_parsed ''expense_amount_threshold'' 1000 ''review'')
     \<and> version (amount_rule ''u1'' ''expense_amount_threshold'' 1000 1 True) < version n"
proof -
  let ?ops = "[Save ''u1'' ''2024-01-01T00:00:00.000Z''
           (amount_parsed ''expense_amount_threshold'' 1000 ''flag'') ''Flag amounts'' ''system'']"
  let ?p = "amount_parsed ''expense_amount_threshold'' 1000 ''review''"
  have "list_all is_Save ?ops \<and> distinct (map save_uuid ?ops @ [''u2''])"
    by simp
  with versions_increase_under_saves
    [of ?ops "''u2''" "''2024-01-02T00:00:00.000Z''" ?p "''Review amounts''" "''auditor''"]
  obtain ls rules n ls' where a: "run_ops ?ops Map.empty = Some ls" "getAllRules ls = Some rules"
      "saveRule ''u2'' ''2024-01-02T00:00:00.000Z'' ?p ''Review amounts'' ''auditor'' ls = Some (n, ls')"
      "lineage n = lineage ?p"
    and inc: "\<forall>r\<in>set rules. lineage r = lineage ?p \<longrightarrow> version r < version n"
    by blast
  from a(1) a(2) one_save_run
  have rules: "rules = [amount_rule ''u1'' ''expense_amount_threshold'' 1000 1 True]"
    by simp
  have "lineage (amount_rule ''u1'' ''expense_amount_threshold'' 1000 1 True) = lineage ?p"
    by (simp add: lineage_def amount_rule_def amount_parsed_def)
  with inc rules have "version (amount_rule ''u1'' ''expense_amount_threshold'' 1000 1 True) < version n"
    by simp
  with a rules show ?thesis by blast
qed

text \<open>
  Claim C4 as stated fails once a deactivation or a rollback has taken place. After a
  save and the deactivation of its rule, a save of the same signature finds no active
  rule and creates version 1 again. After three saves and a rollback to version 1, a
  save of the same signature clones version 1 into a second version 2, below the
  version 3 of the lineage.
\<close>

theorem version_repeats_after_deactivate_counterexample:
  "Option.bind
     (run_ops
        [Save ''u1'' ''2024-01-01T00:00:00.000Z''
           (amount_parsed ''expense_amount_threshold'' 1000 ''flag'') ''Flag amounts'' ''system'',
         Deactivate ''u1'',
         Save ''u2'' ''2024-01-01T00:00:00.000Z''
           (amount_parsed ''expense_amount_threshold'' 1000 ''flag'') ''Flag amounts'' ''system'']
        Map.empty)
     getAllRules
   = Some [amount_rule ''u1'' ''expense_amount_threshold'' 1000 1 False,
           amount_rule ''u2'' ''expense_amount_threshold'' 1000 1 True]
   \<and> Option.bind
     (run_ops
        [Save ''u1'' ''2024-01-01T00:00:00.000Z''
           (amount_parsed ''expense_amount_threshold'' 1000 ''flag'') ''Flag amounts'' ''system'',
         Save ''u2'' ''2024-01-01T00:00:00.000Z''
           (amount_parsed ''expense_amount_threshold'' 1000 ''flag'') ''Flag amounts'' ''system'',
         Save ''u3'' ''2024-01-01T00:00:00.000Z''
           (amount_parsed ''expense_amount_threshold'' 1000 ''flag'') ''Flag amounts'' ''system'',
         Rollback ''expense_amount_threshold'' 1,
         Save ''u4'' ''2024-01-01T00:00:00.000Z''
           (amount_parsed ''expense_amount_threshold'' 1000 ''flag'') ''Flag amounts'' ''system'']
        Map.empty)
     getAllRules
   = Some [amount_rule ''u1'' ''expense_amount_threshold'' 1000 1 False,
           amount_rule ''u2'' ''expense_amount_threshold'' 1000 2 False,
           amount_rule ''u3'' ''expense_amount_threshold'' 1000 3 False,
           amount_rule ''u4'' ''expense_amount_threshold'' 1000 2 True]"
  by code_simp

text \<open>
  Claim C9, as amended. For every store state produced from the empty store by saves
  (and rollbacks and deactivations) in which every saved rule has a non-empty rule type
  and a non-empty action and every generated identifier is non-empty, the export, then
  the clearing, then the import of the exported text succeeds, and \<open>getAllRules\<close>
  returns the same list of rules as before.
\<close>

theorem export_clear_import_roundtrip:
  assumes "\<forall>op\<in>set ops. is_Save op \<longrightarrow>
             save_uuid op \<noteq> [] \<and> rule_type (save_rule op) \<noteq> [] \<and> action (save_rule op) \<noteq> []"
  shows "\<exists>ls rules ls'. run_ops ops Map.empty = Some ls \<and> getAllRules ls = Some rules
      \<and> export_clear_import ls = Some (True, ls') \<and> getAllRules ls' = Some rules"
proof -
  have "named_rules []" by (simp add: named_rules_def)
  with run_ops_inv [of Map.empty "[]" "[]" ops] assms
  obtain ls rules where "run_ops ops Map.empty = Some ls" "getAllRules ls = Some rules"
    "named_rules rules"
    by auto
  with roundtrip_named show ?thesis by blast
qed

lemma roundtrip_example_run:
  "Option.bind
     (run_ops
        [Save ''u1'' ''2024-01-01T00:00:00.000Z''
           (amount_parsed ''expense_amount_threshold'' 1000 ''flag'') ''Flag amounts'' ''system'',
         Save ''u2'' ''2024-01-01T00:00:00.000Z''
           (amount_parsed ''expense_amount_threshold'' 1000 ''flag'') ''Flag amounts'' ''system'']
        Map.empty)
     getAllRules
   = Some [amount_rule ''u1'' ''expense_amount_threshold'' 1000 1 False,
           amount_rule ''u2'' ''expense_amount_threshold'' 1000 2 True]"
  by code_simp

text \<open>Two saves of one signature.\<close>

theorem export_clear_import_roundtrip_witness:
  "\<exists>ls ls'.
     run_ops
        [Save ''u1'' ''2024-01-01T00:00:00.000Z''
           (amount_parsed ''expense_amount_threshold'' 1000 ''flag'') ''Flag amounts'' ''system'',
         Save ''u2'' ''2024-01-01T00:00:00.000Z''
           (amount_parsed ''expense_amount_threshold'' 1000 ''flag'') ''Flag amounts'' ''system'']
        Map.empty = Some ls
     \<and> getAllRules ls = Some [amount_rule ''u1'' ''expense_amount_threshold'' 1000 1 False,
                              amount_rule ''u2'' ''expense_amount_threshold'' 1000 2 True]
     \<and> export_clear_import ls = Some (True, ls')
     \<and> getAllRules ls' = Some [amount_rule ''u1'' ''expense_amount_threshold'' 1000 1 False,
                               amount_rule ''u2'' ''expense_amount_threshold'' 1000 2 True]"
proof -
  let ?ops = "[Save ''u1'' ''2024-01-01T00:00:00.000Z''
           (amount_parsed ''expense_amount_threshold'' 1000 ''flag'') ''Flag amounts'' ''system'',
         Save ''u2'' ''2024-01-01T00:00:00.000Z''
           (amount_parsed ''expense_amount_threshold'' 1000 ''flag'') ''Flag amounts'' ''system'']"
  have "\<forall>op\<in>set ?ops. is_Save op \<longrightarrow>
             save_uuid op \<noteq> [] \<and> rule_type (save_rule op) \<noteq> [] \<and> action (save_rule op) \<noteq> []"
    by (simp add: amount_parsed_def)
  from export_clear_import_roundtrip [OF this]
  obtain ls rules ls' where a: "run_ops ?ops Map.empty = Some ls" "getAllRules ls = Some rules"
      "export_clear_import ls = Some (True, ls')" "getAllRules ls' = Some rules"
    by blast
  with roundtrip_example_run
  have "rules = [amount_rule ''u1'' ''expense_amount_threshold'' 1000 1 False,
                 amount_rule ''u2'' ''expense_amount_threshold'' 1000 2 True]"
    by simp
  with a show ?thesis by blast
qed

text \<open>
  Claim C9 as stated fails for a saved rule whose action is the empty string: the
  import rejects the exported text, and the store, already cleared, stays empty.
\<close>

theorem roundtrip_empty_action_counterexample:
  "Option.bind
     (run_ops [Save ''u1'' ''2024-01-01T00:00:00.000Z''
                 (amount_parsed ''expense_amount_threshold'' 1000 []) ''Flag amounts'' ''system'']
              Map.empty)
     getAllRules
   = Some [(amount_rule ''u1'' ''expense_amount_threshold'' 1000 1 True)\<lparr>action := []\<rparr>]
   \<and> map_option fst
       (Option.bind
         (run_ops [Save ''u1'' ''2024-01-01T00:00:00.000Z''
                     (amount_parsed ''expense_amount_threshold'' 1000 []) ''Flag amounts'' ''system'']
                  Map.empty)
         export_clear_import)
     = Some False
   \<and> Option.bind
       (Option.bind
         (run_ops [Save ''u1'' ''2024-01-01T00:00:00.000Z''
                     (amount_parsed ''expense_amount_threshold'' 1000 []) ''Flag amounts'' ''system'']
                  Map.empty)
         export_clear_import)
       (getAllRules \<circ> snd)
     = Some []"
  by code_simp

end
